theory Spec2Isabelle
  imports Main "HOL-Library.Sublist" "HOL-Library.AList"
begin

section \<open>Strings as the program sees them\<close>

text \<open>
  The program is TypeScript; its strings are sequences of UTF-16 code units. A
  \<^typ>\<open>string\<close> of this theory is read as such a sequence with every code unit below
  256 (Basic Latin and Latin-1 Supplement): \<^term>\<open>of_char c\<close> is the code unit. The
  string methods below are the ECMAScript ones restricted to that range.
\<close>

definition isWhiteSpace :: "char \<Rightarrow> bool" where
  \<comment> \<open>the class \<open>\s\<close> of a regular expression, and what \<open>trim\<close> strips: TAB, LF, VT, FF, CR,
      SPACE and NO-BREAK SPACE are its members below 256\<close>
  "isWhiteSpace c = (let n = (of_char c :: nat) in
     n = 9 \<or> n = 10 \<or> n = 11 \<or> n = 12 \<or> n = 13 \<or> n = 32 \<or> n = 160)"

definition isLineTerminator :: "char \<Rightarrow> bool" where
  \<comment> \<open>what \<open>.\<close> refuses to match without the \<open>s\<close> flag: LF and CR below 256\<close>
  "isLineTerminator c = (let n = (of_char c :: nat) in n = 10 \<or> n = 13)"

definition toLowerChar :: "char \<Rightarrow> char" where
  \<comment> \<open>\<open>A\<close>..\<open>Z\<close> and the Latin-1 capitals (192..222 but the multiplication sign 215)\<close>
  "toLowerChar c = (let n = (of_char c :: nat) in
     if (65 \<le> n \<and> n \<le> 90) \<or> (192 \<le> n \<and> n \<le> 222 \<and> n \<noteq> 215)
     then char_of (n + 32) else c)"

definition toLowerCase :: "string \<Rightarrow> string" where
  "toLowerCase s = map toLowerChar s"

definition canonicalize :: "char \<Rightarrow> char" where
  \<comment> \<open>the case folding of a regular expression with the \<open>i\<close> flag (and no \<open>u\<close> flag): the
      upper-case letter when it is a single code unit. The two letters whose capital lies
      beyond 255 (181 and 255) stand for themselves; nothing else folds onto them.\<close>
  "canonicalize c = (let n = (of_char c :: nat) in
     if (97 \<le> n \<and> n \<le> 122) \<or> (224 \<le> n \<and> n \<le> 254 \<and> n \<noteq> 247)
     then char_of (n - 32) else c)"

definition trim :: "string \<Rightarrow> string" where
  "trim s = rev (dropWhile isWhiteSpace (rev (dropWhile isWhiteSpace s)))"

definition isPunctuation :: "char \<Rightarrow> bool" where
  \<comment> \<open>the class \<open>[.,!?;:]\<close>\<close>
  "isPunctuation c = (c = CHR ''.'' \<or> c = CHR '','' \<or> c = CHR ''!'' \<or> c = CHR ''?''
     \<or> c = CHR '';'' \<or> c = CHR '':'')"

definition removePunctuation :: "string \<Rightarrow> string" where
  \<comment> \<open>\<open>.replace(/[.,!?;:]/g, '')\<close>\<close>
  "removePunctuation s = filter (\<lambda>c. \<not> isPunctuation c) s"

function collapseWhiteSpace :: "string \<Rightarrow> string" where
  \<comment> \<open>\<open>.replace(/\s+/g, ' ')\<close>: every maximal run of white space becomes one space\<close>
  "collapseWhiteSpace [] = []"
| "collapseWhiteSpace (c # cs) =
     (if isWhiteSpace c then CHR '' '' # collapseWhiteSpace (dropWhile isWhiteSpace cs)
      else c # collapseWhiteSpace cs)"
  by pat_completeness auto
termination
  by (relation "measure length") (auto simp: length_dropWhile_le less_Suc_eq_le)

definition cleanText :: "string \<Rightarrow> string" where
  \<comment> \<open>the cleaning that \<open>handleTranscription\<close> and \<open>endsWithWakeWord\<close> both spell out\<close>
  "cleanText s = trim (collapseWhiteSpace (removePunctuation (toLowerCase s)))"

section \<open>Wake words\<close>

definition explicitWakeWords :: "string list" where
  "explicitWakeWords =
    [''hey mira'', ''he mira'', ''hey mara'', ''he mara'', ''hey mirror'', ''he mirror'',
     ''hey miara'', ''he miara'', ''hey mia'', ''he mia'', ''hey mural'', ''he mural'',
     ''hey amira'', ''hey myra'', ''he myra'', ''hay mira'', ''hai mira'', ''hey-mira'',
     ''he-mira'', ''heymira'', ''heymara'', ''hey mirah'', ''he mirah'', ''hey meera'', ''he meera'',
     ''Amira'', ''amira'', ''a mira'', ''a mirror'', ''hey miller'', ''he miller'', ''hey milla'', ''he milla'', ''hey mila'', ''he mila'',
     ''hey miwa'', ''he miwa'', ''hey mora'', ''he mora'', ''hey moira'', ''he moira'',
     ''hey miera'', ''he miera'', ''hey mura'', ''he mura'', ''hey maira'', ''he maira'',
     ''hey meara'', ''he meara'', ''hey mara'', ''he mara'', ''hey mina'', ''he mina'',
     ''hey mirra'', ''he mirra'', ''hey mir'', ''he mir'', ''hey miro'', ''he miro'',
     ''hey miruh'', ''he miruh'', ''hey meerah'', ''he meerah'', ''hey meira'', ''he meira'',
     ''hei mira'', ''hi mira'', ''hey mere'', ''he mere'', ''hey murra'', ''he murra'',
     ''hey mera'', ''he mera'', ''hey neera'', ''he neera'', ''hey murah'', ''he murah'',
     ''hey mear'', ''he mear'', ''hey miras'', ''he miras'', ''hey miora'', ''he miora'', ''hey miri'', ''he miri'',
     ''hey maura'', ''he maura'', ''hey maya'', ''he maya'', ''hey moora'', ''he moora'',
     ''hey mihrah'', ''he mihrah'', ''ay mira'', ''ey mira'', ''yay mira'', ''hey mihra'',
     ''hey mera'', ''hey mira'', ''hey mila'', ''hey mirra'']"

text \<open>
  \<open>explicitWakeWords.some(word => cleanedText.includes(word))\<close>: \<open>includes\<close> (here
  \<open>includesStr\<close>) is the case-sensitive substring test.
\<close>

fun includesStr :: "string \<Rightarrow> string \<Rightarrow> bool" where
  "includesStr [] w = (w = [])"
| "includesStr (c # cs) w = (prefix w (c # cs) \<or> includesStr cs w)"

definition hasWakeWord :: "string \<Rightarrow> bool" where
  "hasWakeWord cleanedText = list_ex (\<lambda>word. includesStr cleanedText word) explicitWakeWords"

text \<open>
  Matching a literal at the head of the input under the \<open>i\<close> flag: the rest of the input
  after the literal, or \<open>None\<close>.
\<close>

fun ciLiteral :: "string \<Rightarrow> string \<Rightarrow> string option" where
  "ciLiteral [] s = Some s"
| "ciLiteral (p # ps) [] = None"
| "ciLiteral (p # ps) (c # cs) =
     (if canonicalize p = canonicalize c then ciLiteral ps cs else None)"

text \<open>
  \<open>new RegExp(word + '$', 'i').test(s)\<close>, the word escaped so that it stands for itself:
  the search tries every start position from the left, and \<open>$\<close> asks for the end of the
  input.
\<close>

fun testAtEnd :: "string \<Rightarrow> string \<Rightarrow> bool" where
  "testAtEnd word [] = (ciLiteral word [] = Some [])"
| "testAtEnd word (c # cs) = (ciLiteral word (c # cs) = Some [] \<or> testAtEnd word cs)"

definition endsWithWakeWord :: "string \<Rightarrow> bool" where
  "endsWithWakeWord s =
     (let cleanedText = cleanText s
      in list_ex (\<lambda>word. testAtEnd word cleanedText) explicitWakeWords)"

subsection \<open>The regular expression of \<open>removeWakeWord\<close>\<close>

definition isRegexSpecial :: "char \<Rightarrow> bool" where
  \<comment> \<open>the characters \<open>removeWakeWord\<close> escapes before it builds its patterns\<close>
  "isRegexSpecial c = (c \<in> set (''.*+?^${}()|[]'' @ [CHR 0x5C]))"

fun splitSpace :: "string \<Rightarrow> string list" where
  \<comment> \<open>\<open>word.split(' ')\<close>\<close>
  "splitSpace [] = [[]]"
| "splitSpace (c # cs) =
     (if c = CHR '' '' then [] # splitSpace cs
      else (case splitSpace cs of [] \<Rightarrow> [[c]] | w # ws \<Rightarrow> (c # w) # ws))"

definition wakePatterns :: "string list list" where
  \<comment> \<open>one pattern per wake word: its words, to be joined by \<open>[\s,\.]*\<close>. No wake word holds
      a character that the escaping step changes (lemma \<open>wake_words_need_no_escape\<close>).\<close>
  "wakePatterns = map splitSpace explicitWakeWords"

definition isSeparator :: "char \<Rightarrow> bool" where
  \<comment> \<open>the class \<open>[\s,\.]\<close>\<close>
  "isSeparator c = (isWhiteSpace c \<or> c = CHR '','' \<or> c = CHR ''.'')"

text \<open>
  One pattern at the head of the input: each word as a literal, \<open>[\s,\.]*\<close> between two
  words. The star is greedy; as no word starts with a separator (lemma
  \<open>wake_pattern_words_start\<close>) giving characters back can never make the next literal
  match, so the greedy choice is the only one to model.
\<close>

fun matchPattern :: "string list \<Rightarrow> string \<Rightarrow> string option" where
  "matchPattern [] s = Some s"
| "matchPattern [w] s = ciLiteral w s"
| "matchPattern (w # ws) s =
     (case ciLiteral w s of
        None \<Rightarrow> None
      | Some r \<Rightarrow> matchPattern ws (dropWhile isSeparator r))"

fun firstMatch :: "string list list \<Rightarrow> string \<Rightarrow> string option" where
  \<comment> \<open>the alternation \<open>(?:p1|p2|...)\<close>: the first alternative that matches wins, since what
      follows it in the expression always matches\<close>
  "firstMatch [] s = None"
| "firstMatch (p # ps) s =
     (case matchPattern p s of Some r \<Rightarrow> Some r | None \<Rightarrow> firstMatch ps s)"

fun lazyDot :: "string \<Rightarrow> string option" where
  \<comment> \<open>\<open>.*?(?:p1|p2|...)[\s,\.]*\<close> from the head of the input: the lazy star takes one more
      character (never a line terminator) only when the alternation fails where it stands.
      The result is the input left after the match.\<close>
  "lazyDot [] =
     (case firstMatch wakePatterns [] of Some r \<Rightarrow> Some (dropWhile isSeparator r) | None \<Rightarrow> None)"
| "lazyDot (c # cs) =
     (case firstMatch wakePatterns (c # cs) of
        Some r \<Rightarrow> Some (dropWhile isSeparator r)
      | None \<Rightarrow> if isLineTerminator c then None else lazyDot cs)"

fun wakeRegexExec :: "string \<Rightarrow> (string \<times> string) option" where
  \<comment> \<open>the search: the first start position, from the left, at which the expression
      matches. The result is the input before the match and the input after it.\<close>
  "wakeRegexExec [] = (case lazyDot [] of Some r \<Rightarrow> Some ([], r) | None \<Rightarrow> None)"
| "wakeRegexExec (c # cs) =
     (case lazyDot (c # cs) of
        Some r \<Rightarrow> Some ([], r)
      | None \<Rightarrow> (case wakeRegexExec cs of
                   None \<Rightarrow> None
                 | Some (pre, r) \<Rightarrow> Some (c # pre, r)))"

definition removeWakeWord :: "string \<Rightarrow> string" where
  \<comment> \<open>\<open>text.replace(wakeRegex, '').trim()\<close>: without the \<open>g\<close> flag only the first match is
      replaced, and an input without a match is left as it is\<close>
  "removeWakeWord s =
     trim (case wakeRegexExec s of None \<Rightarrow> s | Some (pre, r) \<Rightarrow> pre @ r)"

section \<open>The session: \<open>TranscriptionManager\<close> and the timers of its event loop\<close>

text \<open>
  \<open>setTimeout\<close> hands out a fresh handle and keeps the callback pending until it fires or
  \<open>clearTimeout\<close> removes it. The three callbacks the class schedules are the debounce
  callback (\<open>processQuery(text, timerDuration)\<close>), the callback of a timer the agent set
  (its label text and the parsed \<open>timerId\<close>), and the cool-down that ends a query.
\<close>

type_synonym handle = nat

datatype callback =
    DebounceCallback string int
  | TimerUpCallback string "string option"
  | CooldownCallback

record pending_timer =
  t_handle :: handle
  t_delay :: int
  t_callback :: callback

text \<open>
  The fields of the class, followed by what the class acts on: the pending timers, the calls
  of \<open>session.layouts.showTextWall\<close> (text and \<open>durationMs\<close>) in the order made, the
  transcript requests sent (their \<open>duration\<close> parameter), the queries handed to
  \<open>miraAgent.handleContext\<close>, and how many runs of \<open>processQuery\<close> are suspended at each
  of the two places where it waits. The type \<open>'f\<close> is the state of the \<open>TranscriptProcessor\<close>.
\<close>

record 'f session =
  isProcessingQuery :: bool
  isListeningToQuery :: bool
  timeoutId :: "handle option"
  transcriptionStartTime :: int
  activeTimers :: "(string option \<times> handle) list"
  transcriptProcessor :: 'f
  timers :: "pending_timer list"
  nextHandle :: handle
  shown :: "(string \<times> nat) list"
  fetched :: "int list"
  agentQueries :: "string list"
  awaitingFetch :: nat
  awaitingAgent :: nat

text \<open>
  What the class imports and this repository's sources do not show: \<open>wrapText\<close> and the
  \<open>TranscriptProcessor\<close> of \<open>./utils\<close>, and the platform's \<open>JSON.parse\<close> and its
  conversion of a number to a string. They are parameters of the model. \<open>parseJSON\<close> gives
  the parsed value as \<open>processQuery\<close> reads it: its properties \<open>event\<close>, \<open>duration\<close>,
  \<open>label\<close> and \<open>timerId\<close> (\<open>None\<close> for a property that is absent, and for every property
  of a value that is not an object). The model covers an \<open>event\<close> and a \<open>label\<close> that are
  strings, and a \<open>duration\<close> that is a number with a whole value, which \<open>p_duration\<close>
  holds; a \<open>duration\<close> that is a fraction, or no number at all, is outside the model.
  \<open>numberToString\<close> is what a template literal writes for such a number.
\<close>

record parsed_json =
  p_event :: "string option"
  p_duration :: "int option"
  p_label :: "string option"
  p_timerId :: "string option"

record 'f collaborators =
  wrapText :: "string \<Rightarrow> nat \<Rightarrow> string"
  parseJSON :: "string \<Rightarrow> parsed_json option"
  numberToString :: "int \<Rightarrow> string"
  processString :: "'f \<Rightarrow> string \<Rightarrow> bool \<Rightarrow> 'f \<times> string"
  getLastUserTranscript :: "'f \<Rightarrow> string"
  clear :: "'f \<Rightarrow> 'f"

record fragment =
  frag_text :: string
  frag_isFinal :: bool

definition initial :: "'f \<Rightarrow> 'f session" where
  \<comment> \<open>the field initialisers and the constructor; \<open>tp\<close> is the new \<open>TranscriptProcessor\<close>\<close>
  "initial tp = \<lparr> isProcessingQuery = False, isListeningToQuery = False, timeoutId = None,
     transcriptionStartTime = 0, activeTimers = [], transcriptProcessor = tp,
     timers = [], nextHandle = 0, shown = [], fetched = [], agentQueries = [],
     awaitingFetch = 0, awaitingAgent = 0 \<rparr>"

definition timerDelay :: "int \<Rightarrow> int" where
  \<comment> \<open>the platform's timers: a delay below 1 ms or above \<open>2^31 - 1\<close> ms is set to 1 ms\<close>
  "timerDelay delay = (if delay < 1 \<or> 2147483647 < delay then 1 else delay)"

definition setTimeout :: "callback \<Rightarrow> int \<Rightarrow> 'f session \<Rightarrow> 'f session" where
  \<comment> \<open>the handle returned is \<open>nextHandle\<close> of the session before the call\<close>
  "setTimeout cb delay s =
     s\<lparr> timers := timers s @ [\<lparr> t_handle = nextHandle s, t_delay = timerDelay delay,
                                t_callback = cb \<rparr>],
        nextHandle := Suc (nextHandle s) \<rparr>"

definition clearTimeout :: "handle \<Rightarrow> 'f session \<Rightarrow> 'f session" where
  "clearTimeout h s = s\<lparr> timers := filter (\<lambda>t. t_handle t \<noteq> h) (timers s) \<rparr>"

definition showTextWall :: "string \<Rightarrow> nat \<Rightarrow> 'f session \<Rightarrow> 'f session" where
  "showTextWall txt durationMs s = s\<lparr> shown := shown s @ [(txt, durationMs)] \<rparr>"

definition timerDurationOf :: "fragment \<Rightarrow> int" where
  \<comment> \<open>lines 146 to 165 of \<open>handleTranscription\<close>\<close>
  "timerDurationOf frag =
     (if frag_isFinal frag
      then (if endsWithWakeWord (cleanText (frag_text frag)) then 10000 else 1500)
      else 3000)"

definition handleTranscription ::
  "'f collaborators \<Rightarrow> int \<Rightarrow> fragment \<Rightarrow> 'f session \<Rightarrow> 'f session" where
  \<comment> \<open>\<open>now\<close> is what \<open>Date.now()\<close> returns during the call\<close>
  "handleTranscription env now frag s =
     (if isProcessingQuery s then s
      else
        let cleanedText = cleanText (frag_text frag) in
        if \<not> hasWakeWord cleanedText \<and> \<not> isListeningToQuery s then s
        else
          let s1 = s\<lparr> isListeningToQuery := True \<rparr>;
              s2 = (if transcriptionStartTime s1 = 0
                    then s1\<lparr> transcriptionStartTime := now \<rparr> else s1);
              displayText = removeWakeWord (frag_text frag);
              s3 = (if length (trim displayText) = 0
                    then
                      let s2a = (if length (trim (getLastUserTranscript env (transcriptProcessor s2))) \<noteq> 0
                                 then s2\<lparr> transcriptProcessor :=
                                        fst (processString env (transcriptProcessor s2) [] False) \<rparr>
                                 else s2)
                      in showTextWall ''Listening...'' 10000 s2a
                    else
                      let r = processString env (transcriptProcessor s2) displayText (frag_isFinal frag);
                          formatted = ''Listening...'' @ [CHR 0x0A, CHR 0x0A] @ trim (snd r)
                      in showTextWall formatted 10000 (s2\<lparr> transcriptProcessor := fst r \<rparr>));
              timerDuration = timerDurationOf frag;
              s4 = (case timeoutId s3 of None \<Rightarrow> s3 | Some h \<Rightarrow> clearTimeout h s3);
              s5 = setTimeout (DebounceCallback (frag_text frag) timerDuration) timerDuration s4
          in s5\<lparr> timeoutId := Some (nextHandle s4) \<rparr>)"

subsection \<open>\<open>processQuery\<close>, cut where it waits for the transcript and for the agent\<close>

text \<open>
  What the transcript request comes back with. The four failures are the paths into the
  first \<open>catch\<close>: \<open>fetch\<close> or \<open>text()\<close> rejects, the status is not OK, the body is empty or
  blank, the body is not JSON. A parsed body is falsy, or has no (or a falsy) \<open>segments\<close>,
  or a \<open>segments\<close> that is no array, or an array of segments; a segment is \<open>null\<close>, or a
  value whose \<open>text\<close> is absent or \<open>null\<close> (\<open>None\<close>: \<open>join\<close> writes nothing for
  it) or a string. The agent call throws, or returns \<open>null\<close> or \<open>undefined\<close> (\<open>None\<close>)
  or a string; the empty string is falsy. A run of \<open>processQuery\<close> ends by returning or by
  throwing (\<open>segment.text\<close> of a \<open>null\<close> segment, outside every \<open>try\<close>), or waits for the
  agent.
\<close>

datatype fetch_failure = NetworkError | StatusNotOk | EmptyBody | InvalidJSON

datatype segment = NullSegment | Segment "string option"

datatype transcript_body =
    FalsyBody
  | NoSegments
  | SegmentsNotArray
  | Segments "segment list"

datatype fetch_outcome = FetchFailed fetch_failure | FetchBody transcript_body

datatype agent_outcome = AgentThrew | AgentReturned "string option"

datatype run_status = Returned | Threw | AwaitingAgent

definition durationSeconds :: "int \<Rightarrow> int \<Rightarrow> int \<Rightarrow> int" where
  \<comment> \<open>\<open>Math.ceil(x / 1000)\<close> of an integer \<open>x\<close> is \<open>(x + 999) div 1000\<close>\<close>
  "durationSeconds endTime startTime timerDuration =
     (if startTime > 0 then max 1 ((endTime - startTime + 999) div 1000)
      else if timerDuration \<noteq> 0 then max 1 ((timerDuration + 999) div 1000)
      else 3)"

definition processQuery_start :: "int \<Rightarrow> string \<Rightarrow> int \<Rightarrow> 'f session \<Rightarrow> 'f session" where
  \<comment> \<open>from the entry to \<open>await fetch(backendUrl)\<close>: nothing but the request\<close>
  "processQuery_start now rawText timerDuration s =
     s\<lparr> fetched := fetched s @ [durationSeconds now (transcriptionStartTime s) timerDuration],
        awaitingFetch := Suc (awaitingFetch s) \<rparr>"

definition finallyReset :: "'f collaborators \<Rightarrow> 'f session \<Rightarrow> 'f session" where
  \<comment> \<open>the \<open>finally\<close> block\<close>
  "finallyReset env s =
     (let s1 = s\<lparr> transcriptionStartTime := 0 \<rparr>;
          s2 = (case timeoutId s1 of
                  None \<Rightarrow> s1
                | Some h \<Rightarrow> (clearTimeout h s1)\<lparr> timeoutId := None \<rparr>);
          s3 = s2\<lparr> isListeningToQuery := False \<rparr>;
          s4 = s3\<lparr> transcriptProcessor := clear env (transcriptProcessor s3) \<rparr>
      in setTimeout CooldownCallback 2000 s4)"

fun segmentText :: "segment \<Rightarrow> string" where
  "segmentText NullSegment = []"
| "segmentText (Segment None) = []"
| "segmentText (Segment (Some t)) = t"

fun joinSpace :: "string list \<Rightarrow> string" where
  \<comment> \<open>\<open>.join(' ')\<close>\<close>
  "joinSpace [] = []"
| "joinSpace [t] = t"
| "joinSpace (t # ts) = t @ CHR '' '' # joinSpace ts"

definition processQuery_afterFetch ::
  "'f collaborators \<Rightarrow> fetch_outcome \<Rightarrow> 'f session \<Rightarrow> 'f session \<times> run_status" where
  \<comment> \<open>from the transcript request's outcome to \<open>await this.miraAgent.handleContext\<close>\<close>
  "processQuery_afterFetch env outcome s0 =
     (let s = s0\<lparr> awaitingFetch := awaitingFetch s0 - 1 \<rparr> in
      case outcome of
        FetchFailed f \<Rightarrow>
          (showTextWall
             (wrapText env ''Sorry, there was an error retrieving your transcript. Please try again.'' 30)
             5000 s, Returned)
      | FetchBody (Segments segs) \<Rightarrow>
          if list_ex (\<lambda>g. g = NullSegment) segs then (s, Threw)
          else
            let rawCombinedText = joinSpace (map segmentText segs) in
            if isProcessingQuery s then (s, Returned)
            else
              let s1 = s\<lparr> isProcessingQuery := True \<rparr>;
                  query = removeWakeWord rawCombinedText
              in
                if length (trim query) = 0
                then (finallyReset env (showTextWall (wrapText env ''No query provided.'' 30) 5000 s1),
                      Returned)
                else
                  let displayQuery = (if length query > 60 then trim (take 60 query) @ '' ...''
                                      else query);
                      s2 = showTextWall (wrapText env (''Processing query: '' @ displayQuery) 30) 8000 s1
                  in (s2\<lparr> agentQueries := agentQueries s2 @ [query],
                          awaitingAgent := Suc (awaitingAgent s2) \<rparr>, AwaitingAgent)
      | FetchBody b \<Rightarrow>
          (showTextWall
             (wrapText env ''Sorry, the transcript format was invalid. Please try again.'' 30)
             5000 s, Returned))"

definition labelTextOf :: "parsed_json \<Rightarrow> string" where
  \<comment> \<open>\<open>parsed.label ? ` for "${parsed.label}"` : ''\<close>; the empty string is falsy\<close>
  "labelTextOf parsed =
     (case p_label parsed of
        None \<Rightarrow> []
      | Some l \<Rightarrow> if l = [] then [] else '' for '' @ [CHR 0x22] @ l @ [CHR 0x22])"

definition handleAgentString :: "'f collaborators \<Rightarrow> string \<Rightarrow> 'f session \<Rightarrow> 'f session" where
  \<comment> \<open>the branch for a truthy agent response that is a string: the generic handler of tool
      events, then the plain display when nothing handled the response\<close>
  "handleAgentString env agentResponse s =
     (let unhandled = showTextWall (wrapText env agentResponse 30) 8000 s in
      case parseJSON env agentResponse of
        None \<Rightarrow> unhandled
      | Some parsed \<Rightarrow>
          (case p_event parsed of
             None \<Rightarrow> unhandled
           | Some ev \<Rightarrow>
               if ev = ''timer_set''
               then (case p_duration parsed of
                       None \<Rightarrow> unhandled
                     | Some d \<Rightarrow>
                         if d = 0 then unhandled
                         else
                           let labelText = labelTextOf parsed;
                               s1 = showTextWall
                                      (wrapText env (''Timer set'' @ labelText @ '' for ''
                                                      @ numberToString env d @ '' seconds.'') 30)
                                      5000 s;
                               s2 = setTimeout (TimerUpCallback labelText (p_timerId parsed))
                                      (d * 1000) s1
                           in s2\<lparr> activeTimers :=
                                  AList.update (p_timerId parsed) (nextHandle s1) (activeTimers s2) \<rparr>)
               else unhandled))"

definition processQuery_afterAgent ::
  "'f collaborators \<Rightarrow> agent_outcome \<Rightarrow> 'f session \<Rightarrow> 'f session" where
  \<comment> \<open>from the agent's outcome to the end of \<open>processQuery\<close>\<close>
  "processQuery_afterAgent env outcome s0 =
     (let s = s0\<lparr> awaitingAgent := awaitingAgent s0 - 1 \<rparr>;
          notFound = showTextWall (wrapText env ''Sorry, I couldn't find an answer to that.'' 30) 5000 s
      in finallyReset env
           (case outcome of
              AgentThrew \<Rightarrow>
                showTextWall
                  (wrapText env ''Sorry, there was an error processing your request.'' 30) 5000 s
            | AgentReturned None \<Rightarrow> notFound
            | AgentReturned (Some agentResponse) \<Rightarrow>
                if agentResponse = [] then notFound
                else handleAgentString env agentResponse s))"

definition fire :: "'f collaborators \<Rightarrow> int \<Rightarrow> handle \<Rightarrow> 'f session \<Rightarrow> 'f session" where
  \<comment> \<open>the event loop runs the callback of the pending timer \<open>h\<close>, which stops being pending;
      a handle that is not pending never fires\<close>
  "fire env now h s =
     (case find (\<lambda>t. t_handle t = h) (timers s) of
        None \<Rightarrow> s
      | Some t \<Rightarrow>
          let s1 = clearTimeout h s in
          case t_callback t of
            DebounceCallback rawText timerDuration \<Rightarrow> processQuery_start now rawText timerDuration s1
          | TimerUpCallback labelText timerId \<Rightarrow>
              (showTextWall (wrapText env (''Timer'' @ labelText @ '' is up!'') 30) 8000 s1)
                \<lparr> activeTimers := AList.delete timerId (activeTimers s1) \<rparr>
          | CooldownCallback \<Rightarrow> s1\<lparr> isProcessingQuery := False \<rparr>)"

definition cleanup :: "'f session \<Rightarrow> 'f session" where
  "cleanup s =
     (let s1 = (case timeoutId s of None \<Rightarrow> s | Some h \<Rightarrow> clearTimeout h s);
          s2 = fold (\<lambda>kh. clearTimeout (snd kh)) (activeTimers s1) s1
      in s2\<lparr> activeTimers := [] \<rparr>)"

subsection \<open>Events of a session\<close>

text \<open>
  A session's history is a sequence of events, each handled to its end (or to the next
  \<open>await\<close>) before the next one: a transcription arrives, a pending timer fires, the
  transcript request of a suspended run settles, the agent call of a suspended run settles,
  the session stops. An event that cannot happen (a handle that is not pending, a settlement
  nobody waits for) changes nothing.
\<close>

datatype event =
    Transcription int fragment
  | TimerFires int handle
  | FetchSettles fetch_outcome
  | AgentSettles agent_outcome
  | SessionStops

fun step :: "'f collaborators \<Rightarrow> event \<Rightarrow> 'f session \<Rightarrow> 'f session" where
  "step env (Transcription now frag) s = handleTranscription env now frag s"
| "step env (TimerFires now h) s = fire env now h s"
| "step env (FetchSettles outcome) s =
     (if awaitingFetch s = 0 then s else fst (processQuery_afterFetch env outcome s))"
| "step env (AgentSettles outcome) s =
     (if awaitingAgent s = 0 then s else processQuery_afterAgent env outcome s)"
| "step env SessionStops s = cleanup s"

definition run :: "'f collaborators \<Rightarrow> event list \<Rightarrow> 'f session \<Rightarrow> 'f session" where
  "run env evs s = fold (step env) evs s"

fun isDebounce :: "callback \<Rightarrow> bool" where
  "isDebounce (DebounceCallback rawText timerDuration) = True"
| "isDebounce (TimerUpCallback labelText timerId) = False"
| "isDebounce CooldownCallback = False"

definition debounceTimers :: "'f session \<Rightarrow> pending_timer list" where
  \<comment> \<open>the pending timers whose callback is the debounce callback\<close>
  "debounceTimers s = filter (\<lambda>t. isDebounce (t_callback t)) (timers s)"

definition accepted :: "fragment \<Rightarrow> 'f session \<Rightarrow> bool" where
  \<comment> \<open>the fragment passes both early returns of \<open>handleTranscription\<close>\<close>
  "accepted frag s =
     (\<not> isProcessingQuery s \<and> (hasWakeWord (cleanText (frag_text frag)) \<or> isListeningToQuery s))"

section \<open>The specification's words, and notions the proofs use\<close>

definition endsWithAny :: "string \<Rightarrow> bool" where
  \<comment> \<open>the text ends with a wake-phrase variant, letter case aside\<close>
  "endsWithAny normalizedText =
     list_ex (\<lambda>variant. suffix (toLowerCase variant) (toLowerCase normalizedText)) explicitWakeWords"

function showNat :: "nat \<Rightarrow> string" where
  \<comment> \<open>the decimal digits of a number\<close>
  "showNat n = (if n < 10 then [char_of (48 + n)]
                else showNat (n div 10) @ [char_of (48 + n mod 10)])"
  by pat_completeness auto
termination
  by (relation "measure id") auto

declare showNat.simps [simp del]

definition showInt :: "int \<Rightarrow> string" where
  "showInt i = (if i < 0 then CHR ''-'' # showNat (nat (- i)) else showNat (nat i))"

definition standIn :: "(string \<Rightarrow> parsed_json option) \<Rightarrow> string collaborators" where
  \<comment> \<open>simple collaborators for running the model on concrete inputs: no wrapping, a
      formatter that keeps the last fragment only, the given parser, and decimal digits for
      a number (what the platform writes for the whole numbers of the sample runs, all far
      below \<open>10^21\<close>)\<close>
  "standIn parse = \<lparr> wrapText = (\<lambda>t w. t), parseJSON = parse, numberToString = showInt,
     processString = (\<lambda>f t isFinal. (t, t)), getLastUserTranscript = (\<lambda>f. f),
     clear = (\<lambda>f. []) \<rparr>"

definition timersInv :: "'f session \<Rightarrow> bool" where
  \<comment> \<open>the invariant behind the single debounce timer: pending handles are distinct and were
      handed out before, and a pending debounce timer is the one \<open>timeoutId\<close> holds\<close>
  "timersInv s =
     (distinct (map t_handle (timers s)) \<and>
      list_all (\<lambda>t. t_handle t < nextHandle s) (timers s) \<and>
      list_all (\<lambda>t. timeoutId s = Some (t_handle t)) (debounceTimers s) \<and>
      (\<forall>h. timeoutId s = Some h \<longrightarrow> h < nextHandle s))"

text \<open>
  The timers the agent set, the responses that set one, and what the spec calls trusting
  the identifiers, for one \<open>timerId\<close>: no response sets a timer under it while a timer
  set under it is still pending.
\<close>

fun timerUpId :: "callback \<Rightarrow> string option option" where
  "timerUpId (TimerUpCallback labelText timerId) = Some timerId"
| "timerUpId (DebounceCallback rawText timerDuration) = None"
| "timerUpId CooldownCallback = None"

definition idPending :: "string option \<Rightarrow> 'f session \<Rightarrow> bool" where
  \<comment> \<open>a timer the agent set under this id is pending\<close>
  "idPending tid s = list_ex (\<lambda>t. timerUpId (t_callback t) = Some tid) (timers s)"

definition isTimerSet :: "'f collaborators \<Rightarrow> string \<Rightarrow> bool" where
  "isTimerSet env r =
     (case parseJSON env r of
        None \<Rightarrow> False
      | Some p \<Rightarrow> p_event p = Some ''timer_set'' \<and>
                  (case p_duration p of None \<Rightarrow> False | Some d \<Rightarrow> d \<noteq> 0))"

definition reusesId :: "'f collaborators \<Rightarrow> string option \<Rightarrow> event \<Rightarrow> 'f session \<Rightarrow> bool" where
  \<comment> \<open>the event is an agent response that sets a timer under the id, which a pending timer has\<close>
  "reusesId env tid ev s =
     (case ev of
        AgentSettles (AgentReturned (Some r)) \<Rightarrow>
          awaitingAgent s \<noteq> 0 \<and> r \<noteq> [] \<and> isTimerSet env r \<and>
          p_timerId (the (parseJSON env r)) = tid \<and> idPending tid s
      | _ \<Rightarrow> False)"

fun idFresh :: "'f collaborators \<Rightarrow> string option \<Rightarrow> event list \<Rightarrow> 'f session \<Rightarrow> bool" where
  "idFresh env tid [] s = True"
| "idFresh env tid (ev # evs) s = (\<not> reusesId env tid ev s \<and> idFresh env tid evs (step env ev s))"

definition registryInv :: "string option \<Rightarrow> 'f session \<Rightarrow> bool" where
  \<comment> \<open>every pending timer the agent set under the id is the one \<open>activeTimers\<close> holds under it\<close>
  "registryInv tid s =
     (\<forall>t\<in>set (timers s). timerUpId (t_callback t) = Some tid \<longrightarrow>
        map_of (activeTimers s) tid = Some (t_handle t))"

definition sampleParse :: "string \<Rightarrow> parsed_json option" where
  \<comment> \<open>\<open>JSON.parse\<close> on three sample responses of the agent, written \<open>A\<close>, \<open>B\<close> and \<open>C\<close>
      for short: \<open>timer_set\<close> events under the \<open>timerId\<close> \<open>t1\<close>, of 60 and of 600 seconds,
      and one under \<open>t2\<close> of 2147484 seconds\<close>
  "sampleParse r =
     (if r = ''A'' then Some \<lparr> p_event = Some ''timer_set'', p_duration = Some 60,
                                 p_label = None, p_timerId = Some ''t1'' \<rparr>
      else if r = ''B'' then Some \<lparr> p_event = Some ''timer_set'', p_duration = Some 600,
                                      p_label = None, p_timerId = Some ''t1'' \<rparr>
      else if r = ''C'' then Some \<lparr> p_event = Some ''timer_set'', p_duration = Some 2147484,
                                      p_label = None, p_timerId = Some ''t2'' \<rparr>
      else None)"

text \<open>
  The words of section 4.1 for \<open>strip\<close>: a text is an instance of a variant when it is the
  variant's words, letter case aside, with any run of white space, commas and periods
  between two words; a variant occurs at the head of a text when an instance of it is a
  prefix of the text.
\<close>

fun variantInstance :: "string list \<Rightarrow> string \<Rightarrow> bool" where
  "variantInstance [] v = (v = [])"
| "variantInstance [w] v = (toLowerCase v = toLowerCase w)"
| "variantInstance (w # ws) v =
     (\<exists>v1 seps v'. v = v1 @ seps @ v' \<and> toLowerCase v1 = toLowerCase w \<and>
        list_all isSeparator seps \<and> variantInstance ws v')"

definition occursAtHead :: "string \<Rightarrow> bool" where
  "occursAtHead q = (\<exists>ws\<in>set wakePatterns. \<exists>v. prefix v q \<and> variantInstance ws v)"

text \<open>For the proofs: what makes the greedy separator run safe, and a prefix free of matches.\<close>

definition goodPattern :: "string list \<Rightarrow> bool" where
  "goodPattern ws = (ws \<noteq> [] \<and> list_all (\<lambda>w. w \<noteq> [] \<and> \<not> isSeparator (hd w)) ws)"

fun noMatchIn :: "string \<Rightarrow> string \<Rightarrow> bool" where
  "noMatchIn [] q = True"
| "noMatchIn (c # p) q = (firstMatch wakePatterns (c # p @ q) = None \<and> noMatchIn p q)"

text \<open>White space as \<open>collapseWhiteSpace\<close> leaves it: single spaces, none before white space.\<close>

fun wsNormal :: "string \<Rightarrow> bool" where
  "wsNormal [] = True"
| "wsNormal (c # cs) =
     (if isWhiteSpace c then c = CHR '' '' \<and> (cs = [] \<or> \<not> isWhiteSpace (hd cs)) \<and> wsNormal cs
      else wsNormal cs)"

text \<open>The two case mappings on character codes.\<close>

definition lowerCode :: "nat \<Rightarrow> nat" where
  "lowerCode n = (if (65 \<le> n \<and> n \<le> 90) \<or> (192 \<le> n \<and> n \<le> 222 \<and> n \<noteq> 215) then n + 32 else n)"

definition upperCode :: "nat \<Rightarrow> nat" where
  "upperCode n = (if (97 \<le> n \<and> n \<le> 122) \<or> (224 \<le> n \<and> n \<le> 254 \<and> n \<noteq> 247) then n - 32 else n)"

section \<open>Cleaning a text twice\<close>

lemma toLowerChar_idem: "toLowerChar (toLowerChar c) = toLowerChar c"
  by (simp add: toLowerChar_def Let_def)

lemma toLowerChar_space: "toLowerChar (CHR '' '') = CHR '' ''"
  by (simp add: toLowerChar_def)

lemma not_isPunctuation_space: "\<not> isPunctuation (CHR '' '')"
  by (simp add: isPunctuation_def)

lemma isWhiteSpace_space: "isWhiteSpace (CHR '' '')"
  by (simp add: isWhiteSpace_def)

lemma set_collapseWhiteSpace: "set (collapseWhiteSpace s) \<subseteq> insert (CHR '' '') (set s)"
proof (induction s rule: collapseWhiteSpace.induct)
  case 1 show ?case by simp
next
  case (2 c cs)
  have "set (dropWhile isWhiteSpace cs) \<subseteq> set cs" by (auto dest: set_dropWhileD)
  with 2 show ?case by (cases "isWhiteSpace c") auto
qed

lemma set_trim: "set (trim s) \<subseteq> set s"
  unfolding trim_def by (auto dest!: set_dropWhileD)

lemma hd_collapseWhiteSpace:
  "s \<noteq> [] \<Longrightarrow> \<not> isWhiteSpace (hd s) \<Longrightarrow> hd (collapseWhiteSpace s) = hd s \<and> collapseWhiteSpace s \<noteq> []"
  by (cases s) auto

lemma wsNormal_collapse: "wsNormal (collapseWhiteSpace s)"
proof (induction s rule: collapseWhiteSpace.induct)
  case 1 show ?case by simp
next
  case (2 c cs)
  show ?case
  proof (cases "isWhiteSpace c")
    case True
    let ?d = "dropWhile isWhiteSpace cs"
    have "collapseWhiteSpace ?d = [] \<or> \<not> isWhiteSpace (hd (collapseWhiteSpace ?d))"
    proof (cases "?d = []")
      case True then show ?thesis by (simp only: collapseWhiteSpace.simps) simp
    next
      case False
      then have "\<not> isWhiteSpace (hd ?d)" by (rule hd_dropWhile)
      with False show ?thesis using hd_collapseWhiteSpace[of ?d] by simp
    qed
    with True 2 show ?thesis by simp
  next
    case False with 2 show ?thesis by simp
  qed
qed

lemma collapse_wsNormal: "wsNormal s \<Longrightarrow> collapseWhiteSpace s = s"
proof (induction s)
  case Nil show ?case by simp
next
  case (Cons c cs)
  show ?case
  proof (cases "isWhiteSpace c")
    case True
    with Cons.prems have c: "c = CHR '' ''" and h: "cs = [] \<or> \<not> isWhiteSpace (hd cs)" and n: "wsNormal cs"
      by simp_all
    from h have "dropWhile isWhiteSpace cs = cs" by (cases cs) auto
    with True c n Cons.IH show ?thesis by simp
  next
    case False with Cons show ?thesis by simp
  qed
qed

lemma wsNormal_append2: "wsNormal (a @ b) \<Longrightarrow> wsNormal b"
  by (induction a) (auto split: if_splits)

lemma wsNormal_append1: "wsNormal (a @ b) \<Longrightarrow> wsNormal a"
proof (induction a)
  case Nil show ?case by simp
next
  case (Cons c cs)
  then show ?case by (cases cs) (auto split: if_splits)
qed

lemma wsNormal_trim: "wsNormal s \<Longrightarrow> wsNormal (trim s)"
proof -
  assume n: "wsNormal s"
  let ?y = "dropWhile isWhiteSpace s"
  have "s = takeWhile isWhiteSpace s @ ?y" by simp
  with n have y: "wsNormal ?y" by (metis wsNormal_append2)
  have "?y = rev (dropWhile isWhiteSpace (rev ?y)) @ rev (takeWhile isWhiteSpace (rev ?y))"
    by (metis rev_append rev_rev_ident takeWhile_dropWhile_id)
  with y show ?thesis unfolding trim_def by (metis wsNormal_append1)
qed

lemma trim_idem: "trim (trim s) = trim s"
proof -
  let ?y = "dropWhile isWhiteSpace s"
  let ?t = "rev (dropWhile isWhiteSpace (rev ?y))"
  have yt: "?y = ?t @ rev (takeWhile isWhiteSpace (rev ?y))"
    by (metis rev_append rev_rev_ident takeWhile_dropWhile_id)
  have "dropWhile isWhiteSpace ?t = ?t"
  proof (cases ?t)
    case Nil then show ?thesis by (simp only: dropWhile.simps)
  next
    case (Cons a as)
    with yt have "hd ?y = a" by (metis hd_append2 list.sel(1) list.simps(3))
    moreover have "?y \<noteq> []" by (metis Cons yt append_is_Nil_conv list.distinct(1))
    ultimately have "\<not> isWhiteSpace a" using hd_dropWhile[of isWhiteSpace s] by auto
    with Cons show ?thesis by simp
  qed
  then show ?thesis unfolding trim_def by simp
qed

lemma cleanText_idem: "cleanText (cleanText x) = cleanText x"
proof -
  let ?t = "cleanText x"
  have sub: "set ?t \<subseteq> insert (CHR '' '') (set (removePunctuation (toLowerCase x)))"
    unfolding cleanText_def using set_trim set_collapseWhiteSpace by blast
  have low: "toLowerCase ?t = ?t"
    unfolding toLowerCase_def
  proof (rule map_idI)
    fix c assume "c \<in> set (cleanText x)"
    with sub have "c = CHR '' '' \<or> c \<in> set (map toLowerChar x)"
      by (auto simp: removePunctuation_def toLowerCase_def)
    then show "toLowerChar c = c"
      by (auto simp: toLowerChar_idem toLowerChar_space)
  qed
  have pun: "removePunctuation ?t = ?t"
    unfolding removePunctuation_def
  proof (rule filter_True, rule ballI)
    fix c assume "c \<in> set (cleanText x)"
    with sub show "\<not> isPunctuation c"
      by (auto simp: removePunctuation_def not_isPunctuation_space)
  qed
  have "wsNormal ?t" unfolding cleanText_def by (rule wsNormal_trim, rule wsNormal_collapse)
  then have col: "collapseWhiteSpace ?t = ?t" by (rule collapse_wsNormal)
  have tr: "trim ?t = ?t" unfolding cleanText_def by (rule trim_idem)
  show ?thesis
    by (subst (1) cleanText_def) (simp only: low pun col tr)
qed

section \<open>Case folding and literal matching\<close>

lemma of_char_lt: "(of_char c :: nat) < 256"
  by (cases c) (simp) 

lemma of_char_toLowerChar: "(of_char (toLowerChar c) :: nat) = lowerCode (of_char c)"
  using of_char_lt[of c] by (simp add: toLowerChar_def lowerCode_def Let_def)

lemma of_char_canonicalize: "(of_char (canonicalize c) :: nat) = upperCode (of_char c)"
proof -
  have "(of_char c :: nat) - 32 < 256" using of_char_lt[of c] by arith
  then show ?thesis by (simp add: canonicalize_def upperCode_def Let_def)
qed

lemma lower_upperCode: "lowerCode (upperCode a) = lowerCode a"
  unfolding upperCode_def lowerCode_def by (cases "97 \<le> a \<and> a \<le> 122"; cases "224 \<le> a \<and> a \<le> 254 \<and> a \<noteq> 247") auto

lemma upper_lowerCode: "upperCode (lowerCode a) = upperCode a"
  unfolding upperCode_def lowerCode_def by (cases "65 \<le> a \<and> a \<le> 90"; cases "192 \<le> a \<and> a \<le> 222 \<and> a \<noteq> 215") auto

lemma code_fold_iff: "(upperCode a = upperCode b) = (lowerCode a = lowerCode b)"
  by (metis lower_upperCode upper_lowerCode)

lemma canonicalize_eq_iff: "(canonicalize p = canonicalize c) = (toLowerChar p = toLowerChar c)"
proof -
  have "(canonicalize p = canonicalize c) = ((of_char (canonicalize p) :: nat) = of_char (canonicalize c))"
    by simp
  also have "\<dots> = ((of_char (toLowerChar p) :: nat) = of_char (toLowerChar c))"
    by (simp only: of_char_toLowerChar of_char_canonicalize code_fold_iff)
  also have "\<dots> = (toLowerChar p = toLowerChar c)" by simp
  finally show ?thesis .
qed

lemma ciLiteral_Some_iff:
  "(ciLiteral w s = Some r) = (\<exists>m. s = m @ r \<and> toLowerCase m = toLowerCase w)"
proof (induction w s rule: ciLiteral.induct)
  case (1 s) show ?case by (auto simp: toLowerCase_def)
next
  case (2 p ps) show ?case by (auto simp: toLowerCase_def)
next
  case (3 p ps c cs)
  show ?case
  proof (cases "canonicalize p = canonicalize c")
    case True
    then have lc: "toLowerChar p = toLowerChar c" by (simp add: canonicalize_eq_iff)
    show ?thesis
    proof
      assume "ciLiteral (p # ps) (c # cs) = Some r"
      with True 3 obtain m where "cs = m @ r" "toLowerCase m = toLowerCase ps" by auto
      with lc have "c # cs = (c # m) @ r \<and> toLowerCase (c # m) = toLowerCase (p # ps)"
        by (simp add: toLowerCase_def)
      then show "\<exists>m. c # cs = m @ r \<and> toLowerCase m = toLowerCase (p # ps)" by blast
    next
      assume "\<exists>m. c # cs = m @ r \<and> toLowerCase m = toLowerCase (p # ps)"
      then obtain m where m: "c # cs = m @ r" "toLowerCase m = toLowerCase (p # ps)" by blast
      then obtain m' where m': "m = c # m'" by (cases m) (auto simp: toLowerCase_def)
      with m have "cs = m' @ r" "toLowerCase m' = toLowerCase ps" by (auto simp: toLowerCase_def)
      with True 3 show "ciLiteral (p # ps) (c # cs) = Some r" by auto
    qed
  next
    case False
    then have lc: "toLowerChar p \<noteq> toLowerChar c" by (simp add: canonicalize_eq_iff)
    have "\<not> (\<exists>m. c # cs = m @ r \<and> toLowerCase m = toLowerCase (p # ps))"
    proof
      assume "\<exists>m. c # cs = m @ r \<and> toLowerCase m = toLowerCase (p # ps)"
      then obtain m where m: "c # cs = m @ r" "toLowerCase m = toLowerCase (p # ps)" by blast
      then obtain m' where m': "m = c # m'" by (cases m) (auto simp: toLowerCase_def)
      with m lc show False by (auto simp: toLowerCase_def)
    qed
    with False show ?thesis by simp
  qed
qed

lemma testAtEnd_iff: "testAtEnd w s = suffix (toLowerCase w) (toLowerCase s)"
proof (induction s)
  case Nil
  show ?case by (auto simp: ciLiteral_Some_iff toLowerCase_def)
next
  case (Cons c cs)
  have a: "(ciLiteral w (c # cs) = Some []) = (toLowerCase (c # cs) = toLowerCase w)"
    by (auto simp: ciLiteral_Some_iff)
  have "suffix (toLowerCase w) (toLowerCase (c # cs)) =
        (toLowerCase w = toLowerCase (c # cs) \<or> suffix (toLowerCase w) (toLowerCase cs))"
    by (auto simp: toLowerCase_def suffix_Cons)
  with a Cons show ?case by auto
qed

lemma endsWithWakeWord_cleaned: "endsWithWakeWord (cleanText x) = endsWithWakeWord x"
  by (simp add: endsWithWakeWord_def cleanText_idem)

lemma endsWithWakeWord_iff: "endsWithWakeWord x = endsWithAny (cleanText x)"
  by (simp add: endsWithWakeWord_def endsWithAny_def testAtEnd_iff)

section \<open>Running the model on sample inputs\<close>

text \<open>
  Facts about two sample texts, computed once, and the definitions a run of the model
  unfolds.
\<close>

lemma wakePatterns_eval:
  "wakePatterns =
     [[''hey'', ''mira''], [''he'', ''mira''], [''hey'', ''mara''], [''he'', ''mara''],
      [''hey'', ''mirror''], [''he'', ''mirror''], [''hey'', ''miara''], [''he'', ''miara''],
      [''hey'', ''mia''], [''he'', ''mia''], [''hey'', ''mural''], [''he'', ''mural''],
      [''hey'', ''amira''], [''hey'', ''myra''], [''he'', ''myra''], [''hay'', ''mira''],
      [''hai'', ''mira''], [''hey-mira''], [''he-mira''], [''heymira''], [''heymara''],
      [''hey'', ''mirah''], [''he'', ''mirah''], [''hey'', ''meera''], [''he'', ''meera''],
      [''Amira''], [''amira''], [''a'', ''mira''], [''a'', ''mirror''],
      [''hey'', ''miller''], [''he'', ''miller''], [''hey'', ''milla''], [''he'', ''milla''],
      [''hey'', ''mila''], [''he'', ''mila''], [''hey'', ''miwa''], [''he'', ''miwa''],
      [''hey'', ''mora''], [''he'', ''mora''], [''hey'', ''moira''], [''he'', ''moira''],
      [''hey'', ''miera''], [''he'', ''miera''], [''hey'', ''mura''], [''he'', ''mura''],
      [''hey'', ''maira''], [''he'', ''maira''], [''hey'', ''meara''], [''he'', ''meara''],
      [''hey'', ''mara''], [''he'', ''mara''], [''hey'', ''mina''], [''he'', ''mina''],
      [''hey'', ''mirra''], [''he'', ''mirra''], [''hey'', ''mir''], [''he'', ''mir''],
      [''hey'', ''miro''], [''he'', ''miro''], [''hey'', ''miruh''], [''he'', ''miruh''],
      [''hey'', ''meerah''], [''he'', ''meerah''], [''hey'', ''meira''], [''he'', ''meira''],
      [''hei'', ''mira''], [''hi'', ''mira''], [''hey'', ''mere''], [''he'', ''mere''],
      [''hey'', ''murra''], [''he'', ''murra''], [''hey'', ''mera''], [''he'', ''mera''],
      [''hey'', ''neera''], [''he'', ''neera''], [''hey'', ''murah''], [''he'', ''murah''],
      [''hey'', ''mear''], [''he'', ''mear''], [''hey'', ''miras''], [''he'', ''miras''],
      [''hey'', ''miora''], [''he'', ''miora''], [''hey'', ''miri''], [''he'', ''miri''],
      [''hey'', ''maura''], [''he'', ''maura''], [''hey'', ''maya''], [''he'', ''maya''],
      [''hey'', ''moora''], [''he'', ''moora''], [''hey'', ''mihrah''], [''he'', ''mihrah''],
      [''ay'', ''mira''], [''ey'', ''mira''], [''yay'', ''mira''], [''hey'', ''mihra''],
      [''hey'', ''mera''], [''hey'', ''mira''], [''hey'', ''mila''], [''hey'', ''mirra'']]"
  by (simp add: wakePatterns_def explicitWakeWords_def)

lemma canonicalize_table:
  "canonicalize (CHR '' '') = CHR '' ''"
  "canonicalize (CHR ''-'') = CHR ''-''"
  "canonicalize (CHR ''A'') = CHR ''A''"
  "canonicalize (CHR ''a'') = CHR ''A''"
  "canonicalize (CHR ''e'') = CHR ''E''"
  "canonicalize (CHR ''h'') = CHR ''H''"
  "canonicalize (CHR ''i'') = CHR ''I''"
  "canonicalize (CHR ''l'') = CHR ''L''"
  "canonicalize (CHR ''m'') = CHR ''M''"
  "canonicalize (CHR ''n'') = CHR ''N''"
  "canonicalize (CHR ''o'') = CHR ''O''"
  "canonicalize (CHR ''r'') = CHR ''R''"
  "canonicalize (CHR ''s'') = CHR ''S''"
  "canonicalize (CHR ''u'') = CHR ''U''"
  "canonicalize (CHR ''w'') = CHR ''W''"
  "canonicalize (CHR ''y'') = CHR ''Y''"
  "canonicalize (CHR '','') = CHR '',''"
  "canonicalize (CHR 0x0A) = CHR 0x0A"
  by code_simp+

lemmas wake_eval = wakePatterns_eval canonicalize_table removeWakeWord_def
  isSeparator_def isWhiteSpace_def isLineTerminator_def trim_def

lemma hasWakeWordI: "word \<in> set explicitWakeWords \<Longrightarrow> includesStr t word \<Longrightarrow> hasWakeWord t"
  by (auto simp: hasWakeWord_def list_ex_iff)

lemma hey_mira_listed: "''hey mira'' \<in> set explicitWakeWords"
  by (simp add: explicitWakeWords_def)

lemma cleanText_hey_mira: "cleanText ''hey mira'' = ''hey mira''"
  by code_simp

lemma cleanText_hey_mira_hi: "cleanText ''hey mira hi'' = ''hey mira hi''"
  by code_simp

lemma hasWakeWord_hey_mira: "hasWakeWord ''hey mira''"
  by (rule hasWakeWordI[OF hey_mira_listed]) simp

lemma hasWakeWord_hey_mira_hi: "hasWakeWord ''hey mira hi''"
  by (rule hasWakeWordI[OF hey_mira_listed]) simp

lemma removeWakeWord_hey_mira: "removeWakeWord ''hey mira'' = []"
  by (simp add: wake_eval)

lemma removeWakeWord_hey_mira_hi: "removeWakeWord ''hey mira hi'' = ''hi''"
  by (simp add: wake_eval)

lemma trim_hi: "trim ''hi'' = ''hi''"
  by code_simp

lemma trim_Nil: "trim [] = []"
  by (simp add: trim_def)

lemmas sample_texts = cleanText_hey_mira cleanText_hey_mira_hi hasWakeWord_hey_mira
  hasWakeWord_hey_mira_hi removeWakeWord_hey_mira removeWakeWord_hey_mira_hi trim_hi trim_Nil

lemmas session_defs = run_def handleTranscription_def fire_def processQuery_start_def
  processQuery_afterFetch_def processQuery_afterAgent_def handleAgentString_def finallyReset_def
  cleanup_def setTimeout_def timerDelay_def clearTimeout_def showTextWall_def initial_def
  standIn_def timerDurationOf_def durationSeconds_def Let_def

section \<open>What one accepted fragment does to the timers\<close>

lemma timerDelay_in_range: "1 \<le> d \<Longrightarrow> d \<le> 2147483647 \<Longrightarrow> timerDelay d = d"
  by (simp add: timerDelay_def)

lemma timerDelay_timerDurationOf: "timerDelay (timerDurationOf frag) = timerDurationOf frag"
  by (simp add: timerDelay_def timerDurationOf_def)

lemma timerDelay_cooldown: "timerDelay 2000 = 2000"
  by (simp add: timerDelay_def)

lemma timerDurationOf_spec:
  "timerDurationOf frag =
     (if frag_isFinal frag
      then (if endsWithAny (cleanText (frag_text frag)) then 10000 else 1500)
      else 3000)"
  by (simp add: timerDurationOf_def endsWithWakeWord_iff cleanText_idem)

lemma handleTranscription_accepted_timers:
  assumes "accepted frag s"
  shows "timers (handleTranscription env now frag s) =
           (case timeoutId s of None \<Rightarrow> timers s | Some h \<Rightarrow> filter (\<lambda>t. t_handle t \<noteq> h) (timers s))
           @ [\<lparr> t_handle = nextHandle s, t_delay = timerDurationOf frag,
                t_callback = DebounceCallback (frag_text frag) (timerDurationOf frag) \<rparr>]"
    and "timeoutId (handleTranscription env now frag s) = Some (nextHandle s)"
    and "nextHandle (handleTranscription env now frag s) = Suc (nextHandle s)"
  using assms
  by (auto simp: accepted_def handleTranscription_def Let_def setTimeout_def clearTimeout_def
        showTextWall_def timerDelay_timerDurationOf split: option.splits)

lemma placeholder_always_shown:
  assumes "accepted frag s" and "trim (removeWakeWord (frag_text frag)) = []"
  shows "shown (handleTranscription env now frag s) = shown s @ [(''Listening...'', 10000)]"
  using assms
  by (auto simp: accepted_def handleTranscription_def Let_def setTimeout_def clearTimeout_def
        showTextWall_def split: option.splits)

section \<open>The timers of a session, event by event\<close>

lemma timersInv_initial: "timersInv (initial tp)"
  by (simp add: timersInv_def initial_def debounceTimers_def)

lemma timersInv_frame:
  "timers s' = timers s \<Longrightarrow> nextHandle s' = nextHandle s \<Longrightarrow> timeoutId s' = timeoutId s
   \<Longrightarrow> timersInv s' = timersInv s"
  by (simp add: timersInv_def debounceTimers_def)

lemma timersInv_showTextWall: "timersInv (showTextWall t d s) = timersInv s"
  by (rule timersInv_frame) (simp_all add: showTextWall_def)

lemma timersInv_clearTimeout: "timersInv s \<Longrightarrow> timersInv (clearTimeout h s)"
  by (auto simp: timersInv_def clearTimeout_def debounceTimers_def list_all_iff distinct_map_filter)

lemma timersInv_setTimeout:
  "timersInv s \<Longrightarrow> \<not> isDebounce cb \<Longrightarrow> timersInv (setTimeout cb d s)"
  by (fastforce simp: timersInv_def setTimeout_def debounceTimers_def list_all_iff)

lemma debounceTimers_unset:
  "timersInv s \<Longrightarrow> timeoutId s = None \<Longrightarrow> debounceTimers s = []"
  by (cases "debounceTimers s") (auto simp: timersInv_def)

lemma debounceTimers_cleared:
  "timersInv s \<Longrightarrow> timeoutId s = Some h \<Longrightarrow> debounceTimers (clearTimeout h s) = []"
  by (auto simp: timersInv_def clearTimeout_def debounceTimers_def list_all_iff filter_empty_conv)

lemma debounceTimers_le_one: "timersInv s \<Longrightarrow> length (debounceTimers s) \<le> 1"
proof (cases "timeoutId s")
  case None
  assume "timersInv s"
  with None show ?thesis by (simp add: debounceTimers_unset)
next
  case (Some h)
  assume inv: "timersInv s"
  then have d: "distinct (map t_handle (debounceTimers s))"
    by (simp add: timersInv_def debounceTimers_def distinct_map_filter)
  from inv Some have "\<forall>t\<in>set (debounceTimers s). t_handle t = h"
    by (auto simp: timersInv_def list_all_iff)
  then have "set (map t_handle (debounceTimers s)) \<subseteq> {h}" by auto
  then have "card (set (map t_handle (debounceTimers s))) \<le> 1"
    by (metis card_mono finite.emptyI finite.insertI card.empty card.insert empty_iff One_nat_def Suc_eq_plus1 add.left_neutral  le_refl)
  moreover from d have "length (map t_handle (debounceTimers s)) = card (set (map t_handle (debounceTimers s)))"
    by (rule distinct_card[symmetric])
  ultimately have "length (map t_handle (debounceTimers s)) \<le> 1" by (simp only:)
  then show ?thesis by simp
qed


lemma handleTranscription_ignored:
  "\<not> accepted frag s \<Longrightarrow> handleTranscription env now frag s = s"
  by (auto simp: accepted_def handleTranscription_def)

lemma timersInv_handleTranscription:
  assumes "timersInv s"
  shows "timersInv (handleTranscription env now frag s)"
proof (cases "accepted frag s")
  case False
  with assms show ?thesis by (simp add: handleTranscription_ignored)
next
  case True
  note t = handleTranscription_accepted_timers[OF True, of env now]
  show ?thesis
  proof (cases "timeoutId s")
    case None
    with assms have "debounceTimers s = []" by (simp add: debounceTimers_unset)
    with assms None t show ?thesis
      by (auto simp: timersInv_def debounceTimers_def list_all_iff filter_empty_conv)
  next
    case (Some h)
    with assms have "debounceTimers (clearTimeout h s) = []" by (simp add: debounceTimers_cleared)
    with assms Some t show ?thesis
      by (auto simp: timersInv_def debounceTimers_def clearTimeout_def list_all_iff
            filter_empty_conv distinct_map_filter)
  qed
qed

lemma debounceTimers_handleTranscription:
  assumes "timersInv s" and "accepted frag s"
  shows "debounceTimers (handleTranscription env now frag s) =
           [\<lparr> t_handle = nextHandle s, t_delay = timerDurationOf frag,
               t_callback = DebounceCallback (frag_text frag) (timerDurationOf frag) \<rparr>]"
proof -
  note t = handleTranscription_accepted_timers[OF assms(2), of env now]
  show ?thesis
  proof (cases "timeoutId s")
    case None
    with assms have "debounceTimers s = []" by (simp add: debounceTimers_unset)
    with None t show ?thesis by (simp add: debounceTimers_def)
  next
    case (Some h)
    with assms have "debounceTimers (clearTimeout h s) = []" by (simp add: debounceTimers_cleared)
    with Some t show ?thesis by (simp add: debounceTimers_def clearTimeout_def)
  qed
qed

lemma timersInv_finallyReset: "timersInv s \<Longrightarrow> timersInv (finallyReset env s)"
proof -
  assume inv: "timersInv s"
  let ?s1 = "s\<lparr> transcriptionStartTime := 0 \<rparr>"
  have i1: "timersInv ?s1" using inv by (simp add: timersInv_def debounceTimers_def)
  let ?s2 = "(case timeoutId ?s1 of None \<Rightarrow> ?s1 | Some h \<Rightarrow> (clearTimeout h ?s1)\<lparr> timeoutId := None \<rparr>)"
  have i2: "timersInv ?s2"
  proof (cases "timeoutId s")
    case None with i1 show ?thesis by simp
  next
    case (Some h)
    with i1 have "debounceTimers (clearTimeout h ?s1) = []" by (simp add: debounceTimers_cleared)
    moreover from i1 have "timersInv (clearTimeout h ?s1)" by (rule timersInv_clearTimeout)
    ultimately show ?thesis using Some
      by (simp add: timersInv_def debounceTimers_def clearTimeout_def)
  qed
  let ?s4 = "?s2\<lparr> isListeningToQuery := False, transcriptProcessor := clear env (transcriptProcessor ?s2) \<rparr>"
  have "timersInv ?s4" using i2 by (simp add: timersInv_def debounceTimers_def)
  then have "timersInv (setTimeout CooldownCallback 2000 ?s4)" by (rule timersInv_setTimeout) simp
  then show ?thesis by (simp add: finallyReset_def Let_def)
qed


lemma timersInv_processQuery_start:
  "timersInv (processQuery_start now rawText d s) = timersInv s"
  by (rule timersInv_frame) (simp_all add: processQuery_start_def)

lemma timersInv_fire: "timersInv s \<Longrightarrow> timersInv (fire env now h s)"
proof -
  assume inv: "timersInv s"
  then have c: "timersInv (clearTimeout h s)" by (rule timersInv_clearTimeout)
  show ?thesis
  proof (cases "find (\<lambda>t. t_handle t = h) (timers s)")
    case None with inv show ?thesis by (simp add: fire_def)
  next
    case (Some t)
    show ?thesis
    proof (cases "t_callback t")
      case (DebounceCallback rawText d)
      with Some c show ?thesis by (simp add: fire_def Let_def timersInv_processQuery_start)
    next
      case (TimerUpCallback labelText timerId)
      have "timersInv ((showTextWall (wrapText env (''Timer'' @ labelText @ '' is up!'') 30) 8000
               (clearTimeout h s))\<lparr> activeTimers := AList.delete timerId (activeTimers (clearTimeout h s)) \<rparr>)
            = timersInv (clearTimeout h s)"
        by (rule timersInv_frame) (simp_all add: showTextWall_def)
      with Some TimerUpCallback c show ?thesis by (simp add: fire_def Let_def)
    next
      case CooldownCallback
      have "timersInv ((clearTimeout h s)\<lparr> isProcessingQuery := False \<rparr>) = timersInv (clearTimeout h s)"
        by (rule timersInv_frame) simp_all
      with Some CooldownCallback c show ?thesis by (simp add: fire_def Let_def)
    qed
  qed
qed

lemma timersInv_awaitingFetch: "timersInv (s\<lparr> awaitingFetch := n \<rparr>) = timersInv s"
  by (rule timersInv_frame) simp_all

lemma timersInv_awaitingAgent: "timersInv (s\<lparr> awaitingAgent := n \<rparr>) = timersInv s"
  by (rule timersInv_frame) simp_all

lemma timersInv_isProcessingQuery: "timersInv (s\<lparr> isProcessingQuery := b \<rparr>) = timersInv s"
  by (rule timersInv_frame) simp_all

lemma timersInv_agentQueries:
  "timersInv (s\<lparr> agentQueries := q, awaitingAgent := n \<rparr>) = timersInv s"
  by (rule timersInv_frame) simp_all

lemma timersInv_processQuery_afterFetch:
  "timersInv s \<Longrightarrow> timersInv (fst (processQuery_afterFetch env outcome s))"
  by (simp add: processQuery_afterFetch_def Let_def timersInv_showTextWall timersInv_awaitingFetch
        timersInv_isProcessingQuery timersInv_agentQueries timersInv_finallyReset
        split: fetch_outcome.splits transcript_body.splits)

lemma timersInv_handleAgentString:
  assumes "timersInv s"
  shows "timersInv (handleAgentString env r s)"
proof -
  have reg: "timersInv ((setTimeout (TimerUpCallback l k) d (showTextWall m 5000 s))
               \<lparr> activeTimers := a \<rparr>)" for l k d m a
  proof -
    have "timersInv (setTimeout (TimerUpCallback l k) d (showTextWall m 5000 s))"
      using assms by (intro timersInv_setTimeout) (simp_all add: timersInv_showTextWall)
    moreover have "timersInv ((setTimeout (TimerUpCallback l k) d (showTextWall m 5000 s))
               \<lparr> activeTimers := a \<rparr>) = timersInv (setTimeout (TimerUpCallback l k) d (showTextWall m 5000 s))"
      by (rule timersInv_frame) simp_all
    ultimately show ?thesis by simp
  qed
  show ?thesis
    using assms
    by (simp add: handleAgentString_def Let_def timersInv_showTextWall reg
          split: option.splits)
qed

lemma timersInv_processQuery_afterAgent:
  "timersInv s \<Longrightarrow> timersInv (processQuery_afterAgent env outcome s)"
  by (simp add: processQuery_afterAgent_def Let_def timersInv_showTextWall timersInv_awaitingAgent
        timersInv_handleAgentString timersInv_finallyReset
        split: agent_outcome.splits option.splits)

lemma timersInv_fold_clearTimeout:
  "timersInv s \<Longrightarrow> timersInv (fold (\<lambda>kh. clearTimeout (snd kh)) al s)"
  by (induction al arbitrary: s) (simp_all add: timersInv_clearTimeout)

lemma timersInv_cleanup: "timersInv s \<Longrightarrow> timersInv (cleanup s)"
proof -
  assume inv: "timersInv s"
  let ?s1 = "(case timeoutId s of None \<Rightarrow> s | Some h \<Rightarrow> clearTimeout h s)"
  have "timersInv ?s1" using inv by (simp add: timersInv_clearTimeout split: option.splits)
  then have f: "timersInv (fold (\<lambda>kh. clearTimeout (snd kh)) (activeTimers ?s1) ?s1)"
    by (rule timersInv_fold_clearTimeout)
  have "timersInv ((fold (\<lambda>kh. clearTimeout (snd kh)) (activeTimers ?s1) ?s1)\<lparr> activeTimers := [] \<rparr>)
      = timersInv (fold (\<lambda>kh. clearTimeout (snd kh)) (activeTimers ?s1) ?s1)"
    by (rule timersInv_frame) simp_all
  with f show ?thesis by (simp add: cleanup_def Let_def)
qed

lemma timersInv_step: "timersInv s \<Longrightarrow> timersInv (step env ev s)"
  by (cases ev)
     (simp_all add: timersInv_handleTranscription timersInv_fire timersInv_processQuery_afterFetch
        timersInv_processQuery_afterAgent timersInv_cleanup)

lemma timersInv_run: "timersInv s \<Longrightarrow> timersInv (run env evs s)"
  unfolding run_def by (induction evs arbitrary: s) (simp_all add: timersInv_step)

section \<open>The registry of the timers the agent set\<close>

lemma registryInv_initial: "registryInv tid (initial tp)"
  by (simp add: registryInv_def initial_def)

lemma registryInv_frame:
  "timers s' = timers s \<Longrightarrow> activeTimers s' = activeTimers s \<Longrightarrow>
   registryInv tid s' = registryInv tid s"
  by (simp add: registryInv_def)

lemma registryInv_showTextWall: "registryInv tid (showTextWall t d s) = registryInv tid s"
  by (rule registryInv_frame) (simp_all add: showTextWall_def)

lemma registryInv_handleTranscription:
  "registryInv tid s \<Longrightarrow> registryInv tid (handleTranscription env now frag s)"
proof (cases "accepted frag s")
  case False
  assume "registryInv tid s"
  with False show ?thesis by (simp add: handleTranscription_ignored)
next
  case True
  assume inv: "registryInv tid s"
  have a: "activeTimers (handleTranscription env now frag s) = activeTimers s"
    using True
    by (auto simp: accepted_def handleTranscription_def Let_def setTimeout_def clearTimeout_def
          showTextWall_def split: option.splits)
  note t = handleTranscription_accepted_timers(1)[OF True, of env now]
  show ?thesis
    using inv unfolding registryInv_def a t
    by (auto split: option.splits)
qed

lemma registryInv_finallyReset: "registryInv tid s \<Longrightarrow> registryInv tid (finallyReset env s)"
  by (auto simp: registryInv_def finallyReset_def Let_def setTimeout_def clearTimeout_def
        split: option.splits)

lemma registryInv_processQuery_afterFetch:
  "registryInv tid s \<Longrightarrow> registryInv tid (fst (processQuery_afterFetch env outcome s))"
proof -
  assume inv: "registryInv tid s"
  have f1: "registryInv tid (s\<lparr> awaitingFetch := n \<rparr>)" for n
    using inv by (simp add: registryInv_def)
  have f2: "registryInv tid (s\<lparr> awaitingFetch := n, isProcessingQuery := True \<rparr>)" for n
    using inv by (simp add: registryInv_def)
  have f3: "registryInv tid ((showTextWall m d (s\<lparr> awaitingFetch := n, isProcessingQuery := True \<rparr>))
              \<lparr> agentQueries := q, awaitingAgent := k \<rparr>)" for m d n q k
    using inv by (simp add: registryInv_def showTextWall_def)
  show ?thesis
    by (simp add: processQuery_afterFetch_def Let_def registryInv_showTextWall f1 f2 f3
          registryInv_finallyReset split: fetch_outcome.splits transcript_body.splits)
qed

lemma find_handle:
  "find (\<lambda>t. t_handle t = h) ts = Some t \<Longrightarrow> t \<in> set ts \<and> t_handle t = h"
  by (auto simp: find_Some_iff)

lemma find_handle_distinct:
  "distinct (map t_handle ts) \<Longrightarrow> t \<in> set ts \<Longrightarrow> find (\<lambda>u. t_handle u = t_handle t) ts = Some t"
  by (induction ts) (auto simp: image_iff)

lemma map_of_delete_other: "k' \<noteq> k \<Longrightarrow> map_of (AList.delete k al) k' = map_of al k'"
  by (simp add: delete_conv')

lemma map_of_delete_same: "map_of (AList.delete k al) k = None"
  by (simp add: delete_conv')

lemma registryInv_fire: "registryInv tid s \<Longrightarrow> registryInv tid (fire env now h s)"
proof -
  assume inv: "registryInv tid s"
  show ?thesis
  proof (cases "find (\<lambda>t. t_handle t = h) (timers s)")
    case None with inv show ?thesis by (simp add: fire_def)
  next
    case (Some t)
    then have t: "t \<in> set (timers s)" "t_handle t = h" by (auto dest: find_handle)
    show ?thesis
    proof (cases "t_callback t")
      case (DebounceCallback rawText d)
      with Some inv show ?thesis
        by (simp add: fire_def Let_def registryInv_def processQuery_start_def clearTimeout_def)
    next
      case CooldownCallback
      with Some inv show ?thesis
        by (simp add: fire_def Let_def registryInv_def clearTimeout_def)
    next
      case (TimerUpCallback labelText k)
      have "map_of (AList.delete k (activeTimers s)) tid = Some (t_handle u)"
        if u: "u \<in> set (timers s)" "t_handle u \<noteq> h" "timerUpId (t_callback u) = Some tid" for u
      proof -
        from inv u have r: "map_of (activeTimers s) tid = Some (t_handle u)"
          by (auto simp: registryInv_def)
        have "tid \<noteq> k"
        proof
          assume "tid = k"
          with inv t TimerUpCallback have "map_of (activeTimers s) tid = Some h"
            by (auto simp: registryInv_def)
          with r u show False by simp
        qed
        with r show ?thesis by (simp add: map_of_delete_other)
      qed
      with Some TimerUpCallback show ?thesis
        by (auto simp: fire_def Let_def registryInv_def clearTimeout_def showTextWall_def)
    qed
  qed
qed

lemma registryInv_handleAgentString:
  assumes "registryInv tid s"
    and "isTimerSet env r \<and> p_timerId (the (parseJSON env r)) = tid \<longrightarrow> \<not> idPending tid s"
  shows "registryInv tid (handleAgentString env r s)"
proof (cases "isTimerSet env r")
  case False
  then have "handleAgentString env r s = showTextWall (wrapText env r 30) 8000 s"
    by (auto simp: isTimerSet_def handleAgentString_def Let_def split: option.splits)
  with assms(1) show ?thesis by (simp add: registryInv_showTextWall)
next
  case True
  then obtain p d where p: "parseJSON env r = Some p" "p_event p = Some ''timer_set''"
      "p_duration p = Some d" "d \<noteq> 0"
    by (auto simp: isTimerSet_def split: option.splits)
  with assms(2) True
  have fresh: "p_timerId p = tid \<Longrightarrow> \<forall>t\<in>set (timers s). timerUpId (t_callback t) \<noteq> Some tid"
    by (auto simp: idPending_def list_ex_iff)
  from p have eq: "handleAgentString env r s =
      (setTimeout (TimerUpCallback (labelTextOf p) (p_timerId p)) (d * 1000)
         (showTextWall (wrapText env (''Timer set'' @ labelTextOf p @ '' for '' @ numberToString env d @ '' seconds.'') 30) 5000 s))
      \<lparr> activeTimers := AList.update (p_timerId p) (nextHandle s) (activeTimers s) \<rparr>"
    by (simp add: handleAgentString_def Let_def showTextWall_def setTimeout_def)
  show ?thesis
  proof (cases "p_timerId p = tid")
    case True
    with fresh show ?thesis
      unfolding eq using assms(1)
      by (auto simp: registryInv_def showTextWall_def setTimeout_def update_conv')
  next
    case False
    then show ?thesis
      unfolding eq using assms(1)
      by (auto simp: registryInv_def showTextWall_def setTimeout_def update_conv')
  qed
qed

lemma registryInv_processQuery_afterAgent:
  assumes "registryInv tid s"
    and "\<not> reusesId env tid (AgentSettles outcome) s" and "awaitingAgent s \<noteq> 0"
  shows "registryInv tid (processQuery_afterAgent env outcome s)"
proof -
  let ?s = "s\<lparr> awaitingAgent := awaitingAgent s - 1 \<rparr>"
  have i: "registryInv tid ?s" using assms(1) by (simp add: registryInv_def)
  have "registryInv tid (handleAgentString env r ?s)"
    if "outcome = AgentReturned (Some r)" "r \<noteq> []" for r
  proof (rule registryInv_handleAgentString[OF i])
    show "isTimerSet env r \<and> p_timerId (the (parseJSON env r)) = tid \<longrightarrow> \<not> idPending tid ?s"
      using assms(2,3) that by (simp add: reusesId_def idPending_def)
  qed
  then show ?thesis
    using i
    by (auto simp: processQuery_afterAgent_def Let_def registryInv_showTextWall
          intro!: registryInv_finallyReset split: agent_outcome.splits option.splits)
qed

lemma timers_fold_clearTimeout:
  "timers (fold (\<lambda>kh. clearTimeout (snd kh)) al s) =
     filter (\<lambda>t. t_handle t \<notin> snd ` set al) (timers s)"
  by (induction al arbitrary: s) (auto simp: clearTimeout_def intro: filter_cong)

lemma timers_cleanup:
  "timers (cleanup s) =
     filter (\<lambda>t. t_handle t \<notin> snd ` set (activeTimers s))
       (filter (\<lambda>t. timeoutId s \<noteq> Some (t_handle t)) (timers s))"
  by (cases "timeoutId s")
     (auto simp: cleanup_def Let_def timers_fold_clearTimeout clearTimeout_def intro: filter_cong)

lemma idPending_cleanup: "registryInv tid s \<Longrightarrow> \<not> idPending tid (cleanup s)"
proof -
  assume inv: "registryInv tid s"
  have "t_handle t \<in> snd ` set (activeTimers s)"
    if "t \<in> set (timers s)" "timerUpId (t_callback t) = Some tid" for t
  proof -
    from inv that have "map_of (activeTimers s) tid = Some (t_handle t)"
      by (auto simp: registryInv_def)
    then have "(tid, t_handle t) \<in> set (activeTimers s)" by (rule map_of_SomeD)
    then show ?thesis by force
  qed
  then show ?thesis
    by (auto simp: idPending_def list_ex_iff timers_cleanup)
qed

lemma registryInv_cleanup: "registryInv tid s \<Longrightarrow> registryInv tid (cleanup s)"
proof -
  assume "registryInv tid s"
  then have "\<not> idPending tid (cleanup s)" by (rule idPending_cleanup)
  then show ?thesis
    by (auto simp: registryInv_def idPending_def list_ex_iff)
qed

lemma registryInv_step:
  "registryInv tid s \<Longrightarrow> \<not> reusesId env tid ev s \<Longrightarrow> registryInv tid (step env ev s)"
  by (cases ev)
     (simp_all add: registryInv_handleTranscription registryInv_fire
        registryInv_processQuery_afterFetch registryInv_processQuery_afterAgent registryInv_cleanup)

lemma registryInv_run:
  "registryInv tid s \<Longrightarrow> idFresh env tid evs s \<Longrightarrow> registryInv tid (run env evs s)"
  unfolding run_def by (induction evs arbitrary: s) (simp_all add: registryInv_step)

lemma processQuery_afterAgent_timer_set:
  assumes "r \<noteq> []" and "parseJSON env r = Some p" and "p_event p = Some ''timer_set''"
    and "p_duration p = Some d" and "d \<noteq> 0"
  shows "activeTimers (processQuery_afterAgent env (AgentReturned (Some r)) s) =
           AList.update (p_timerId p) (nextHandle s) (activeTimers s)"
    and "timers (processQuery_afterAgent env (AgentReturned (Some r)) s) =
           filter (\<lambda>u. timeoutId s \<noteq> Some (t_handle u))
             (timers s @ [\<lparr> t_handle = nextHandle s, t_delay = timerDelay (d * 1000),
                            t_callback = TimerUpCallback (labelTextOf p) (p_timerId p) \<rparr>])
           @ [\<lparr> t_handle = Suc (nextHandle s), t_delay = 2000, t_callback = CooldownCallback \<rparr>]"
  using assms
  by (auto simp: processQuery_afterAgent_def handleAgentString_def finallyReset_def Let_def
        showTextWall_def setTimeout_def clearTimeout_def timerDelay_cooldown
        split: option.splits intro!: filter_cong)

lemma fire_timer_up:
  assumes "distinct (map t_handle (timers s))" and "t \<in> set (timers s)"
    and "t_callback t = TimerUpCallback l k"
  shows "shown (fire env now (t_handle t) s) = shown s @ [(wrapText env (''Timer'' @ l @ '' is up!'') 30, 8000)]"
    and "activeTimers (fire env now (t_handle t) s) = AList.delete k (activeTimers s)"
    and "timers (fire env now (t_handle t) s) = filter (\<lambda>u. t_handle u \<noteq> t_handle t) (timers s)"
  using find_handle_distinct[OF assms(1,2)] assms(3)
  by (simp_all add: fire_def Let_def showTextWall_def clearTimeout_def)

lemma showInt_60: "showInt 60 = ''60''"
  by code_simp

lemma showInt_600: "showInt 600 = ''600''"
  by code_simp

lemmas sample_timers = sampleParse_def labelTextOf_def showInt_60 showInt_600

section \<open>What the regular expression of \<open>removeWakeWord\<close> finds\<close>

lemma wake_words_need_no_escape:
  "list_all (\<lambda>w. list_all (\<lambda>c. \<not> isRegexSpecial c) w) explicitWakeWords"
  by code_simp

lemma wake_pattern_words_start: "list_all goodPattern wakePatterns"
  by code_simp

lemma isSeparator_code:
  "isSeparator c = (let n = (of_char c :: nat) in
      n = 9 \<or> n = 10 \<or> n = 11 \<or> n = 12 \<or> n = 13 \<or> n = 32 \<or> n = 160 \<or> n = 44 \<or> n = 46)"
proof -
  have "(of_char (CHR '','') :: nat) = 44" and "(of_char (CHR ''.'') :: nat) = 46" by simp_all
  then have "(c = CHR '','') = ((of_char c :: nat) = 44)" and "(c = CHR ''.'') = ((of_char c :: nat) = 46)"
    by (metis of_char_eq_iff)+
  then show ?thesis by (auto simp: isSeparator_def isWhiteSpace_def Let_def)
qed

lemma isSeparator_toLowerChar: "isSeparator (toLowerChar c) = isSeparator c"
  unfolding isSeparator_code of_char_toLowerChar Let_def lowerCode_def
  by (cases "65 \<le> (of_char c :: nat) \<and> (of_char c :: nat) \<le> 90";
      cases "192 \<le> (of_char c :: nat) \<and> (of_char c :: nat) \<le> 222 \<and> (of_char c :: nat) \<noteq> 215") auto

lemma isSeparator_lower_eq:
  "toLowerChar a = toLowerChar b \<Longrightarrow> isSeparator a = isSeparator b"
  by (metis isSeparator_toLowerChar)


lemma toLowerCase_eq_hd:
  "toLowerCase v = toLowerCase w \<Longrightarrow> w \<noteq> [] \<Longrightarrow> v \<noteq> [] \<and> toLowerChar (hd v) = toLowerChar (hd w)"
  by (cases v; cases w) (auto simp: toLowerCase_def)

lemma variantInstance_start:
  "goodPattern ws \<Longrightarrow> variantInstance ws v \<Longrightarrow> v \<noteq> [] \<and> \<not> isSeparator (hd v)"
proof (cases ws)
  case Nil
  assume "goodPattern ws" with Nil show ?thesis by (simp add: goodPattern_def)
next
  case (Cons w ws')
  assume g: "goodPattern ws" and i: "variantInstance ws v"
  from g Cons have w: "w \<noteq> []" "\<not> isSeparator (hd w)" by (simp_all add: goodPattern_def)
  from i Cons obtain v1 r where v: "v = v1 @ r" "toLowerCase v1 = toLowerCase w"
    by (cases ws') auto
  from toLowerCase_eq_hd[OF v(2) w(1)] have "v1 \<noteq> []" "toLowerChar (hd v1) = toLowerChar (hd w)"
    by simp_all
  with w v show ?thesis by (auto dest: isSeparator_lower_eq)
qed

lemma ciLiteral_append:
  "toLowerCase m = toLowerCase w \<Longrightarrow> ciLiteral w (m @ r) = Some r"
  by (simp add: ciLiteral_Some_iff)

lemma dropWhile_separators:
  "list_all isSeparator seps \<Longrightarrow> x \<noteq> [] \<Longrightarrow> \<not> isSeparator (hd x) \<Longrightarrow>
   dropWhile isSeparator (seps @ x @ r) = x @ r"
  by (cases x) (auto simp: list_all_iff dropWhile_append)

lemma goodPattern_tl: "goodPattern (w # w' # ws) \<Longrightarrow> goodPattern (w' # ws)"
  by (simp add: goodPattern_def)

lemma matchPattern_iff:
  "goodPattern ws \<Longrightarrow>
   (matchPattern ws s = Some r) = (\<exists>v. s = v @ r \<and> variantInstance ws v)"
proof (induction ws s rule: matchPattern.induct)
  case (1 s)
  then show ?case by (simp add: goodPattern_def)
next
  case (2 w s)
  show ?case by (auto simp: ciLiteral_Some_iff)
next
  case (3 w w' ws s)
  from "3.prems" have g': "goodPattern (w' # ws)" by (rule goodPattern_tl)
  show ?case
  proof
    assume m: "matchPattern (w # w' # ws) s = Some r"
    then obtain r1 where r1: "ciLiteral w s = Some r1"
      and m': "matchPattern (w' # ws) (dropWhile isSeparator r1) = Some r"
      by (auto split: option.splits)
    from r1 obtain v1 where v1: "s = v1 @ r1" "toLowerCase v1 = toLowerCase w"
      by (auto simp: ciLiteral_Some_iff)
    from "3.IH"[OF r1 g'] m' obtain v' where v': "dropWhile isSeparator r1 = v' @ r"
      "variantInstance (w' # ws) v'" by auto
    have "r1 = takeWhile isSeparator r1 @ dropWhile isSeparator r1" by simp
    with v1 v' have "s = (v1 @ takeWhile isSeparator r1 @ v') @ r" by simp
    moreover have "list_all isSeparator (takeWhile isSeparator r1)"
      by (auto simp: list_all_iff dest: set_takeWhileD)
    with v1 v' have "variantInstance (w # w' # ws) (v1 @ takeWhile isSeparator r1 @ v')"
      by auto
    ultimately show "\<exists>v. s = v @ r \<and> variantInstance (w # w' # ws) v" by blast
  next
    assume "\<exists>v. s = v @ r \<and> variantInstance (w # w' # ws) v"
    then obtain v1 seps v' where v: "s = (v1 @ seps @ v') @ r" "toLowerCase v1 = toLowerCase w"
      "list_all isSeparator seps" "variantInstance (w' # ws) v'" by auto
    from v(1,2) have c: "ciLiteral w s = Some (seps @ v' @ r)"
      using ciLiteral_append[of v1 w "seps @ v' @ r"] by simp
    from variantInstance_start[OF g' v(4)] v(3)
    have d: "dropWhile isSeparator (seps @ v' @ r) = v' @ r" by (simp add: dropWhile_separators)
    from "3.IH"[OF c g'] d v(4) have "matchPattern (w' # ws) (dropWhile isSeparator (seps @ v' @ r)) = Some r"
      by auto
    with c show "matchPattern (w # w' # ws) s = Some r" by simp
  qed
qed

lemma matchPattern_None_iff:
  "goodPattern ws \<Longrightarrow> (matchPattern ws s = None) = (\<not> (\<exists>v. prefix v s \<and> variantInstance ws v))"
proof -
  assume g: "goodPattern ws"
  have "(matchPattern ws s \<noteq> None) = (\<exists>r v. s = v @ r \<and> variantInstance ws v)"
    using matchPattern_iff[OF g, of s] by auto
  then show ?thesis by (auto simp: prefix_def)
qed


lemma firstMatch_None_iff:
  "(firstMatch pats s = None) = (\<forall>p\<in>set pats. matchPattern p s = None)"
  by (induction pats) (auto split: option.splits)

lemma firstMatch_nth:
  "i < length pats \<Longrightarrow> matchPattern (pats ! i) s = Some r \<Longrightarrow>
   \<forall>j<i. matchPattern (pats ! j) s = None \<Longrightarrow> firstMatch pats s = Some r"
proof (induction pats arbitrary: i)
  case Nil then show ?case by simp
next
  case (Cons p pats)
  show ?case
  proof (cases i)
    case 0 with Cons.prems show ?thesis by simp
  next
    case (Suc i')
    with Cons.prems have "matchPattern p s = None" by auto
    moreover from Suc Cons.prems have "firstMatch pats s = Some r"
      by (intro Cons.IH[of i']) auto
    ultimately show ?thesis by simp
  qed
qed

lemma good_wake_pattern: "ws \<in> set wakePatterns \<Longrightarrow> goodPattern ws"
  using wake_pattern_words_start by (simp add: list_all_iff)

lemma occursAtHead_iff: "occursAtHead q = (firstMatch wakePatterns q \<noteq> None)"
  unfolding occursAtHead_def firstMatch_None_iff
  by (auto simp: matchPattern_None_iff good_wake_pattern)

lemma noMatchIn_iff:
  "noMatchIn p q = (\<not> (\<exists>p1 p2. p = p1 @ p2 \<and> p2 \<noteq> [] \<and> occursAtHead (p2 @ q)))"
proof (induction p)
  case Nil show ?case by simp
next
  case (Cons c p)
  have "(\<exists>p1 p2. c # p = p1 @ p2 \<and> p2 \<noteq> [] \<and> occursAtHead (p2 @ q)) =
        (occursAtHead ((c # p) @ q) \<or> (\<exists>p1 p2. p = p1 @ p2 \<and> p2 \<noteq> [] \<and> occursAtHead (p2 @ q)))"
  proof
    assume "\<exists>p1 p2. c # p = p1 @ p2 \<and> p2 \<noteq> [] \<and> occursAtHead (p2 @ q)"
    then obtain p1 p2 where h: "c # p = p1 @ p2" "p2 \<noteq> []" "occursAtHead (p2 @ q)" by blast
    show "occursAtHead ((c # p) @ q) \<or> (\<exists>p1 p2. p = p1 @ p2 \<and> p2 \<noteq> [] \<and> occursAtHead (p2 @ q))"
    proof (cases p1)
      case Nil with h show ?thesis by simp
    next
      case (Cons a p1') with h show ?thesis by auto
    qed
  next
    assume "occursAtHead ((c # p) @ q) \<or> (\<exists>p1 p2. p = p1 @ p2 \<and> p2 \<noteq> [] \<and> occursAtHead (p2 @ q))"
    then show "\<exists>p1 p2. c # p = p1 @ p2 \<and> p2 \<noteq> [] \<and> occursAtHead (p2 @ q)"
    proof
      assume "occursAtHead ((c # p) @ q)"
      then have "c # p = [] @ (c # p) \<and> c # p \<noteq> [] \<and> occursAtHead ((c # p) @ q)" by simp
      then show ?thesis by blast
    next
      assume "\<exists>p1 p2. p = p1 @ p2 \<and> p2 \<noteq> [] \<and> occursAtHead (p2 @ q)"
      then obtain p1 p2 where "p = p1 @ p2" "p2 \<noteq> []" "occursAtHead (p2 @ q)" by blast
      then have "c # p = (c # p1) @ p2 \<and> p2 \<noteq> [] \<and> occursAtHead (p2 @ q)" by simp
      then show ?thesis by blast
    qed
  qed
  with Cons show ?case by (simp add: occursAtHead_iff)
qed

lemma lazyDot_head:
  "firstMatch wakePatterns q = Some r0 \<Longrightarrow> lazyDot q = Some (dropWhile isSeparator r0)"
  by (cases q) simp_all

lemma lazyDot_split:
  "noMatchIn p q \<Longrightarrow> firstMatch wakePatterns q = Some r0 \<Longrightarrow>
   lazyDot (p @ q) = (if list_ex isLineTerminator p then None else Some (dropWhile isSeparator r0))"
  by (induction p) (simp_all add: lazyDot_head)

lemma wakeRegexExec_head:
  "lazyDot q = Some r \<Longrightarrow> wakeRegexExec q = Some ([], r)"
  by (cases q) simp_all

lemma wakeRegexExec_split:
  "noMatchIn p q \<Longrightarrow> \<not> list_ex isLineTerminator p \<Longrightarrow> firstMatch wakePatterns q = Some r0 \<Longrightarrow>
   wakeRegexExec (p @ q) = Some ([], dropWhile isSeparator r0)"
  by (rule wakeRegexExec_head) (simp add: lazyDot_split)

lemma lazyDot_none:
  "\<forall>q. suffix q s \<longrightarrow> firstMatch wakePatterns q = None \<Longrightarrow> lazyDot s = None"
proof (induction s)
  case Nil then show ?case by simp
next
  case (Cons c s)
  have "\<forall>q. suffix q s \<longrightarrow> firstMatch wakePatterns q = None"
    using Cons.prems by (auto simp: suffix_Cons)
  then have "lazyDot s = None" by (rule Cons.IH)
  moreover have "firstMatch wakePatterns (c # s) = None" using Cons.prems by auto
  ultimately show ?case by simp
qed

lemma wakeRegexExec_none:
  "\<forall>q. suffix q s \<longrightarrow> firstMatch wakePatterns q = None \<Longrightarrow> wakeRegexExec s = None"
proof (induction s)
  case Nil then show ?case by simp
next
  case (Cons c s)
  have t: "\<forall>q. suffix q s \<longrightarrow> firstMatch wakePatterns q = None"
    using Cons.prems by (auto simp: suffix_Cons)
  then have "wakeRegexExec s = None" by (rule Cons.IH)
  moreover have "lazyDot (c # s) = None" using Cons.prems by (rule lazyDot_none)
  ultimately show ?case by simp
qed

lemma no_variant_in_hi: "\<not> (\<exists>q. suffix q '' hi'' \<and> occursAtHead q)"
proof -
  have "list_all (\<lambda>q. firstMatch wakePatterns q = None) (suffixes '' hi'')"
    by (simp add: wakePatterns_eval canonicalize_table)
  then have "\<forall>q\<in>set (suffixes '' hi''). firstMatch wakePatterns q = None"
    by (simp only: list_all_iff)
  then have "\<forall>q. suffix q '' hi'' \<longrightarrow> firstMatch wakePatterns q = None"
    by (metis in_set_suffixes)
  then show ?thesis by (simp add: occursAtHead_iff)
qed

lemma first_wake_pattern: "wakePatterns ! 0 = [''hey'', ''mira'']"
  by (simp add: wakePatterns_def explicitWakeWords_def)

lemma hey_mira_instance: "variantInstance [''hey'', ''mira''] ''hey mira''"
proof -
  have "''hey mira'' = ''hey'' @ '' '' @ ''mira'' \<and> toLowerCase ''hey'' = toLowerCase ''hey'' \<and>
        list_all isSeparator '' '' \<and> variantInstance [''mira''] ''mira''"
    by (simp add: isSeparator_def isWhiteSpace_def)
  then show ?thesis unfolding variantInstance.simps by blast
qed

section \<open>The \<open>finally\<close> block\<close>

lemma finallyReset_fields:
  "transcriptionStartTime (finallyReset env s) = 0"
  "timeoutId (finallyReset env s) = None"
  "isListeningToQuery (finallyReset env s) = False"
  "transcriptProcessor (finallyReset env s) = clear env (transcriptProcessor s)"
  "isProcessingQuery (finallyReset env s) = isProcessingQuery s"
  "last (timers (finallyReset env s)) =
     \<lparr> t_handle = nextHandle s, t_delay = 2000, t_callback = CooldownCallback \<rparr>"
  by (auto simp: finallyReset_def Let_def setTimeout_def clearTimeout_def timerDelay_cooldown
        split: option.splits)

lemma handleAgentString_fields:
  "transcriptProcessor (handleAgentString env r s) = transcriptProcessor s"
  "isProcessingQuery (handleAgentString env r s) = isProcessingQuery s"
  by (auto simp: handleAgentString_def Let_def showTextWall_def setTimeout_def split: option.splits)

lemma processQuery_afterAgent_finally:
  "\<exists>s1. processQuery_afterAgent env outcome s = finallyReset env s1 \<and>
         transcriptProcessor s1 = transcriptProcessor s \<and> isProcessingQuery s1 = isProcessingQuery s"
  by (cases outcome)
     (auto simp: processQuery_afterAgent_def Let_def showTextWall_def handleAgentString_fields
        split: option.splits)

lemma fire_cooldown:
  assumes "timersInv s" and "timers s \<noteq> []" and "t_callback (last (timers s)) = CooldownCallback"
  shows "\<not> isProcessingQuery (fire env now (t_handle (last (timers s))) s)"
proof -
  from assms(1) have d: "distinct (map t_handle (timers s))" by (simp add: timersInv_def)
  from assms(2) have "last (timers s) \<in> set (timers s)" by simp
  from find_handle_distinct[OF d this] assms(3) show ?thesis
    by (simp add: fire_def Let_def clearTimeout_def)
qed

section \<open>Claims\<close>

text \<open>
  C10. Cleaning a fragment's text (lower case, the punctuation \<open>.,!?;:\<close> removed, runs of
  white space collapsed, trimmed) is idempotent, and so \<open>endsWithWakeWord\<close>, which cleans
  its argument again, answers the same on the raw text and on the cleaned text.
\<close>

theorem cleanText_idempotent_C10:
  "cleanText (cleanText x) = cleanText x \<and> endsWithWakeWord (cleanText x) = endsWithWakeWord x"
proof
  show idem: "cleanText (cleanText x) = cleanText x"
    by (rule cleanText_idem)
  have "endsWithWakeWord (cleanText x) =
          list_ex (\<lambda>word. testAtEnd word (cleanText (cleanText x))) explicitWakeWords"
    by (simp add: endsWithWakeWord_def)
  also have "\<dots> = list_ex (\<lambda>word. testAtEnd word (cleanText x)) explicitWakeWords"
    by (simp only: idem)
  also have "\<dots> = endsWithWakeWord x"
    by (simp add: endsWithWakeWord_def)
  finally show "endsWithWakeWord (cleanText x) = endsWithWakeWord x" .
qed

text \<open>
  C3 (the code departs from the claim). \<open>handleTranscription\<close> does return at its first
  line while \<open>isProcessingQuery\<close> is set (lemma \<open>handleTranscription_ignored\<close>), but
  \<open>processQuery\<close> sets the flag only once its transcript request has settled, so this does
  not keep the session to one query in flight. Below, the second fragment arrives while the
  first run awaits its request and rearms the debounce timer; when that timer fires, the
  first run is waiting for the agent and the second sends its own request: two runs are in
  flight, with the flag set. And when the second request settles after the cool-down of the
  first run, the same query is handed to the agent a second time.
\<close>

theorem two_queries_in_flight_C3:
  "run (standIn (\<lambda>r. None))
     [Transcription 1000 \<lparr> frag_text = ''hey mira hi'', frag_isFinal = False \<rparr>,
      TimerFires 4000 0,
      Transcription 4100 \<lparr> frag_text = ''hey mira hi'', frag_isFinal = False \<rparr>,
      FetchSettles (FetchBody (Segments [Segment (Some ''hey mira hi'')])),
      TimerFires 7100 1]
     (initial [])
   = \<lparr> isProcessingQuery = True, isListeningToQuery = True, timeoutId = Some 1,
       transcriptionStartTime = 1000, activeTimers = [], transcriptProcessor = ''hi'',
       timers = [], nextHandle = 2,
       shown = [(''Listening...'' @ [CHR 0x0A, CHR 0x0A] @ ''hi'', 10000),
                (''Listening...'' @ [CHR 0x0A, CHR 0x0A] @ ''hi'', 10000),
                (''Processing query: hi'', 8000)],
       fetched = [3, 7], agentQueries = [''hi''], awaitingFetch = 1, awaitingAgent = 1 \<rparr> \<and>
   run (standIn (\<lambda>r. None))
     [Transcription 1000 \<lparr> frag_text = ''hey mira hi'', frag_isFinal = False \<rparr>,
      TimerFires 4000 0,
      Transcription 4100 \<lparr> frag_text = ''hey mira hi'', frag_isFinal = False \<rparr>,
      FetchSettles (FetchBody (Segments [Segment (Some ''hey mira hi'')])),
      TimerFires 7100 1,
      AgentSettles (AgentReturned (Some ''ok'')),
      TimerFires 10000 2,
      FetchSettles (FetchBody (Segments [Segment (Some ''hey mira hi'')]))]
     (initial [])
   = \<lparr> isProcessingQuery = True, isListeningToQuery = False, timeoutId = None,
       transcriptionStartTime = 0, activeTimers = [], transcriptProcessor = [],
       timers = [], nextHandle = 3,
       shown = [(''Listening...'' @ [CHR 0x0A, CHR 0x0A] @ ''hi'', 10000),
                (''Listening...'' @ [CHR 0x0A, CHR 0x0A] @ ''hi'', 10000),
                (''Processing query: hi'', 8000),
                (''ok'', 8000),
                (''Processing query: hi'', 8000)],
       fetched = [3, 7], agentQueries = [''hi'', ''hi''], awaitingFetch = 0, awaitingAgent = 1 \<rparr>"
  by (simp add: session_defs sample_texts)

text \<open>
  C5. For an accepted fragment the debounce timer is scheduled for 10000 ms when the
  fragment is final and its cleaned text ends with a wake-phrase variant, for 1500 ms when
  it is final and does not, and for 3000 ms when it is not final; the callback carries the
  same duration.
\<close>

theorem debounce_duration_C5:
  assumes "accepted frag s"
  shows "timeoutId (handleTranscription env now frag s) = Some (nextHandle s) \<and>
         last (timers (handleTranscription env now frag s)) =
           (let d = (if frag_isFinal frag
                     then (if endsWithAny (cleanText (frag_text frag)) then 10000 else 1500)
                     else 3000)
            in \<lparr> t_handle = nextHandle s, t_delay = d,
                 t_callback = DebounceCallback (frag_text frag) d \<rparr>)"
  using handleTranscription_accepted_timers[OF assms, of env now]
  by (simp add: timerDurationOf_spec Let_def)

theorem debounce_duration_C5_witness:
  "accepted \<lparr> frag_text = ''Hey, Mira!'', frag_isFinal = True \<rparr> (initial []) \<and>
   last (timers (handleTranscription (standIn (\<lambda>r. None)) 7
           \<lparr> frag_text = ''Hey, Mira!'', frag_isFinal = True \<rparr> (initial []))) =
     \<lparr> t_handle = 0, t_delay = 10000, t_callback = DebounceCallback ''Hey, Mira!'' 10000 \<rparr>"
proof -
  have a: "accepted \<lparr> frag_text = ''Hey, Mira!'', frag_isFinal = True \<rparr> (initial [])"
    by code_simp
  have e: "endsWithAny (cleanText ''Hey, Mira!'')"
    by code_simp
  show ?thesis
    using a e debounce_duration_C5[OF a, of "standIn (\<lambda>r. None)" 7]
    by (simp add: initial_def)
qed

text \<open>
  C7 (the code departs from the claim and from its own comment). The claim, like the comment
  above the inner \<open>if\<close> of \<open>handleTranscription\<close>, has the placeholder shown only if the
  last shown fragment was not empty. The call of \<open>showTextWall\<close> stands after that \<open>if\<close>, not
  inside it: two wake-phrase-only fragments in a row, with nothing shown in between, draw
  the placeholder twice. Lemma \<open>placeholder_always_shown\<close> has it for every formatter: an
  accepted fragment that is empty once stripped always draws the placeholder.
\<close>

theorem placeholder_redrawn_C7:
  "shown (run (standIn (\<lambda>r. None))
            [Transcription 1000 \<lparr> frag_text = ''hey mira'', frag_isFinal = False \<rparr>,
             Transcription 1200 \<lparr> frag_text = ''hey mira'', frag_isFinal = False \<rparr>]
            (initial []))
   = [(''Listening...'', 10000), (''Listening...'', 10000)]"
  by (simp add: session_defs sample_texts)

text \<open>
  C1 (the code departs from the claim). The two early returns of \<open>processQuery\<close> (a failed
  transcript request, a malformed body) stand before the \<open>try\<close> whose \<open>finally\<close> resets the
  session. After a request that fails with a status that is not OK the session is still
  listening, \<open>transcriptionStartTime\<close> and \<open>timeoutId\<close> are still set, the formatter is not
  cleared and no cool-down is pending.
\<close>

theorem fetch_failure_leaves_state_C1:
  "run (standIn (\<lambda>r. None))
     [Transcription 1000 \<lparr> frag_text = ''hey mira hi'', frag_isFinal = False \<rparr>,
      TimerFires 4000 0,
      FetchSettles (FetchFailed StatusNotOk)]
     (initial [])
   = \<lparr> isProcessingQuery = False, isListeningToQuery = True, timeoutId = Some 0,
       transcriptionStartTime = 1000, activeTimers = [], transcriptProcessor = ''hi'',
       timers = [], nextHandle = 1,
       shown = [(''Listening...'' @ [CHR 0x0A, CHR 0x0A] @ ''hi'', 10000),
                (''Sorry, there was an error retrieving your transcript. Please try again.'', 5000)],
       fetched = [3], agentQueries = [], awaitingFetch = 0, awaitingAgent = 0 \<rparr>"
  by (simp add: session_defs sample_texts)

text \<open>
  C2 (the code departs from the claim). \<open>processQuery\<close> tests and sets
  \<open>isProcessingQuery\<close> only after \<open>await fetch\<close>, so the flag is unset all the while a run
  awaits its transcript request. Below, the next fragment is therefore accepted and rearms
  the debounce timer, and the run that timer starts does not return at once: it sends a
  transcript request of its own. Both runs are then suspended at the request, the flag
  still unset.
\<close>

theorem flag_unset_while_fetching_C2:
  "run (standIn (\<lambda>r. None))
     [Transcription 1000 \<lparr> frag_text = ''hey mira hi'', frag_isFinal = False \<rparr>,
      TimerFires 4000 0,
      Transcription 4100 \<lparr> frag_text = ''hey mira hi'', frag_isFinal = False \<rparr>,
      TimerFires 7100 1]
     (initial [])
   = \<lparr> isProcessingQuery = False, isListeningToQuery = True, timeoutId = Some 1,
       transcriptionStartTime = 1000, activeTimers = [], transcriptProcessor = ''hi'',
       timers = [], nextHandle = 2,
       shown = [(''Listening...'' @ [CHR 0x0A, CHR 0x0A] @ ''hi'', 10000),
                (''Listening...'' @ [CHR 0x0A, CHR 0x0A] @ ''hi'', 10000)],
       fetched = [3, 7], agentQueries = [], awaitingFetch = 2, awaitingAgent = 0 \<rparr>"
  by (simp add: session_defs sample_texts)

text \<open>
  C8 (as the code has it). When the segment list (none of its segments \<open>null\<close>) joins to a
  text that is empty once the wake phrase is stripped and trimmed, the run ends without
  calling the agent; it shows the message \<open>No query provided.\<close> unless
  \<open>isProcessingQuery\<close> was already set, in which case it shows nothing.
\<close>

theorem empty_query_C8:
  assumes "\<not> list_ex (\<lambda>g. g = NullSegment) segs"
    and "trim (removeWakeWord (joinSpace (map segmentText segs))) = []"
  shows "snd (processQuery_afterFetch env (FetchBody (Segments segs)) s) = Returned \<and>
         agentQueries (fst (processQuery_afterFetch env (FetchBody (Segments segs)) s)) = agentQueries s \<and>
         awaitingAgent (fst (processQuery_afterFetch env (FetchBody (Segments segs)) s)) = awaitingAgent s \<and>
         shown (fst (processQuery_afterFetch env (FetchBody (Segments segs)) s)) =
           (if isProcessingQuery s then shown s
            else shown s @ [(wrapText env ''No query provided.'' 30, 5000)])"
  using assms
  by (simp add: processQuery_afterFetch_def finallyReset_def setTimeout_def clearTimeout_def
        showTextWall_def Let_def split: option.splits)

theorem empty_query_C8_witness:
  "\<not> list_ex (\<lambda>g. g = NullSegment) [] \<and>
   trim (removeWakeWord (joinSpace (map segmentText []))) = [] \<and>
   snd (processQuery_afterFetch (standIn (\<lambda>r. None)) (FetchBody (Segments [])) (initial [])) = Returned \<and>
   agentQueries (fst (processQuery_afterFetch (standIn (\<lambda>r. None)) (FetchBody (Segments [])) (initial []))) = [] \<and>
   shown (fst (processQuery_afterFetch (standIn (\<lambda>r. None)) (FetchBody (Segments [])) (initial [])))
     = [(''No query provided.'', 5000)]"
proof -
  have a: "\<not> list_ex (\<lambda>g. g = NullSegment) []" by simp
  have b: "trim (removeWakeWord (joinSpace (map segmentText []))) = []"
    by code_simp
  show ?thesis
    using a b empty_query_C8[OF a b, of "standIn (\<lambda>r. None)" "initial []"]
    by (simp add: initial_def standIn_def)
qed

text \<open>
  C8 as stated fails for a run that meets the re-entrancy guard: the second run below gets
  an empty segment list while the first run awaits the agent, and no \<open>No query provided.\<close>
  is shown.
\<close>

theorem silent_return_C8_counterexample:
  "run (standIn (\<lambda>r. None))
     [Transcription 1000 \<lparr> frag_text = ''hey mira hi'', frag_isFinal = False \<rparr>,
      TimerFires 4000 0,
      Transcription 4100 \<lparr> frag_text = ''hey mira hi'', frag_isFinal = False \<rparr>,
      FetchSettles (FetchBody (Segments [Segment (Some ''hey mira hi'')])),
      TimerFires 7100 1,
      FetchSettles (FetchBody (Segments []))]
     (initial [])
   = \<lparr> isProcessingQuery = True, isListeningToQuery = True, timeoutId = Some 1,
       transcriptionStartTime = 1000, activeTimers = [], transcriptProcessor = ''hi'',
       timers = [], nextHandle = 2,
       shown = [(''Listening...'' @ [CHR 0x0A, CHR 0x0A] @ ''hi'', 10000),
                (''Listening...'' @ [CHR 0x0A, CHR 0x0A] @ ''hi'', 10000),
                (''Processing query: hi'', 8000)],
       fetched = [3, 7], agentQueries = [''hi''], awaitingFetch = 0, awaitingAgent = 1 \<rparr>"
  by (simp add: session_defs sample_texts)

text \<open>
  C4. Whatever events a session has gone through, at most one debounce timer is pending;
  and when \<open>handleTranscription\<close> then accepts a fragment, the timer it schedules is the
  only pending debounce timer afterwards (the one before it, if any, is cancelled first),
  with the duration computed for that fragment.
\<close>

theorem single_debounce_timer_C4:
  "length (debounceTimers (run env evs (initial tp))) \<le> 1 \<and>
   (\<forall>now frag. accepted frag (run env evs (initial tp)) \<longrightarrow>
      debounceTimers (handleTranscription env now frag (run env evs (initial tp))) =
        [\<lparr> t_handle = nextHandle (run env evs (initial tp)), t_delay = timerDurationOf frag,
            t_callback = DebounceCallback (frag_text frag) (timerDurationOf frag) \<rparr>])"
proof -
  have inv: "timersInv (run env evs (initial tp))"
    by (rule timersInv_run) (rule timersInv_initial)
  show ?thesis
  proof (intro conjI allI impI)
    show "length (debounceTimers (run env evs (initial tp))) \<le> 1"
      using inv by (rule debounceTimers_le_one)
  next
    fix now frag
    assume "accepted frag (run env evs (initial tp))"
    with inv show "debounceTimers (handleTranscription env now frag (run env evs (initial tp))) =
        [\<lparr> t_handle = nextHandle (run env evs (initial tp)), t_delay = timerDurationOf frag,
            t_callback = DebounceCallback (frag_text frag) (timerDurationOf frag) \<rparr>]"
      by (rule debounceTimers_handleTranscription)
  qed
qed

theorem single_debounce_timer_C4_witness:
  "length (debounceTimers (run (standIn (\<lambda>r. None))
      [Transcription 1000 \<lparr> frag_text = ''hey mira'', frag_isFinal = False \<rparr>,
       Transcription 1200 \<lparr> frag_text = ''hey mira hi'', frag_isFinal = False \<rparr>] (initial []))) \<le> 1 \<and>
   accepted \<lparr> frag_text = ''hey mira hi'', frag_isFinal = False \<rparr>
     (run (standIn (\<lambda>r. None))
      [Transcription 1000 \<lparr> frag_text = ''hey mira'', frag_isFinal = False \<rparr>,
       Transcription 1200 \<lparr> frag_text = ''hey mira hi'', frag_isFinal = False \<rparr>] (initial [])) \<and>
   debounceTimers (handleTranscription (standIn (\<lambda>r. None)) 1400
       \<lparr> frag_text = ''hey mira hi'', frag_isFinal = False \<rparr>
     (run (standIn (\<lambda>r. None))
      [Transcription 1000 \<lparr> frag_text = ''hey mira'', frag_isFinal = False \<rparr>,
       Transcription 1200 \<lparr> frag_text = ''hey mira hi'', frag_isFinal = False \<rparr>] (initial []))) =
     [\<lparr> t_handle = 2, t_delay = 3000, t_callback = DebounceCallback ''hey mira hi'' 3000 \<rparr>]"
proof -
  let ?s = "run (standIn (\<lambda>r. None))
      [Transcription 1000 \<lparr> frag_text = ''hey mira'', frag_isFinal = False \<rparr>,
       Transcription 1200 \<lparr> frag_text = ''hey mira hi'', frag_isFinal = False \<rparr>] (initial [])"
  have a: "accepted \<lparr> frag_text = ''hey mira hi'', frag_isFinal = False \<rparr> ?s"
    by (simp add: accepted_def session_defs sample_texts)
  have n: "nextHandle ?s = 2"
    by (simp add: session_defs sample_texts)
  have d: "timerDurationOf \<lparr> frag_text = ''hey mira hi'', frag_isFinal = False \<rparr> = 3000"
    by (simp add: timerDurationOf_def)
  from single_debounce_timer_C4[of "standIn (\<lambda>r. None)"
      "[Transcription 1000 \<lparr> frag_text = ''hey mira'', frag_isFinal = False \<rparr>,
        Transcription 1200 \<lparr> frag_text = ''hey mira hi'', frag_isFinal = False \<rparr>]" "[]"]
  have "length (debounceTimers ?s) \<le> 1"
    and "\<forall>now frag. accepted frag ?s \<longrightarrow>
      debounceTimers (handleTranscription (standIn (\<lambda>r. None)) now frag ?s) =
        [\<lparr> t_handle = nextHandle ?s, t_delay = timerDurationOf frag,
            t_callback = DebounceCallback (frag_text frag) (timerDurationOf frag) \<rparr>]"
    by blast+
  with a n d show ?thesis by (auto simp del: run_def)
qed

text \<open>
  C9 (as the code has it). At any point of a session, take an agent response that parses to
  a \<open>timer_set\<close> event with a non-zero whole duration \<open>d\<close>. Then \<open>processQuery\<close> registers
  the new timeout under \<open>timerId\<close> in \<open>activeTimers\<close>, and it is the one pending timer of its
  handle, with the delay the platform makes of \<open>d * 1000\<close> ms: that very delay for \<open>d\<close> from 1
  to 2147483 seconds. However the session goes on: if the timer is still pending, its
  firing shows the \<open>Timer is up!\<close> text, removes the entry from \<open>activeTimers\<close> and leaves
  nothing pending under the handle; and \<open>cleanup\<close> empties the registry. If moreover no timer
  was pending under \<open>timerId\<close> when this one was set, and no later response sets a timer
  under \<open>timerId\<close> while one is pending under it, then \<open>cleanup\<close> leaves no timer pending
  under \<open>timerId\<close>: this one is cancelled.
\<close>

theorem side_effect_timer_C9:
  assumes "r \<noteq> []" and "parseJSON env r = Some p" and "p_event p = Some ''timer_set''"
    and "p_duration p = Some d" and "d \<noteq> 0"
  shows "let s = run env evs (initial tp);
             h = nextHandle s;
             s1 = processQuery_afterAgent env (AgentReturned (Some r)) s;
             t = \<lparr> t_handle = h, t_delay = timerDelay (d * 1000),
                   t_callback = TimerUpCallback (labelTextOf p) (p_timerId p) \<rparr>;
             s2 = run env evs' s1
         in map_of (activeTimers s1) (p_timerId p) = Some h \<and>
            filter (\<lambda>u. t_handle u = h) (timers s1) = [t] \<and>
            (1 \<le> d \<and> d \<le> 2147483 \<longrightarrow> t_delay t = d * 1000) \<and>
            (t \<in> set (timers s2) \<longrightarrow>
               (\<forall>now. shown (fire env now h s2) =
                        shown s2 @ [(wrapText env (''Timer'' @ labelTextOf p @ '' is up!'') 30, 8000)] \<and>
                      map_of (activeTimers (fire env now h s2)) (p_timerId p) = None \<and>
                      filter (\<lambda>u. t_handle u = h) (timers (fire env now h s2)) = [])) \<and>
            activeTimers (cleanup s2) = [] \<and>
            (\<not> idPending (p_timerId p) s \<and> idFresh env (p_timerId p) evs' s1 \<longrightarrow>
               \<not> idPending (p_timerId p) (cleanup s2) \<and> t \<notin> set (timers (cleanup s2)))"
proof -
  define s where "s = run env evs (initial tp)"
  define h where "h = nextHandle s"
  define s1 where "s1 = processQuery_afterAgent env (AgentReturned (Some r)) s"
  define t where "t = \<lparr> t_handle = h, t_delay = timerDelay (d * 1000),
                   t_callback = TimerUpCallback (labelTextOf p) (p_timerId p) \<rparr>"
  define s2 where "s2 = run env evs' s1"
  have ti: "timersInv s" unfolding s_def by (rule timersInv_run) (rule timersInv_initial)
  note ps = processQuery_afterAgent_timer_set[OF assms(1-5), of s]
  have reg: "map_of (activeTimers s1) (p_timerId p) = Some h"
    unfolding s1_def h_def ps by (simp add: update_conv')
  have old: "\<forall>u\<in>set (timers s). t_handle u < h"
    using ti by (simp add: timersInv_def h_def list_all_iff)
  have tid: "timeoutId s \<noteq> Some h"
    using ti by (auto simp: timersInv_def h_def)
  have "filter (\<lambda>u. t_handle u = h) (filter (\<lambda>u. timeoutId s \<noteq> Some (t_handle u)) (timers s)) = []"
    using old by (auto simp: filter_empty_conv)
  then have one: "filter (\<lambda>u. t_handle u = h) (timers s1) = [t]"
    unfolding s1_def ps using tid by (simp add: t_def h_def)
  have delay: "t_delay t = d * 1000" if "1 \<le> d" "d \<le> 2147483"
    using that by (simp add: t_def timerDelay_def)
  have ti1: "timersInv s1" unfolding s1_def using ti by (rule timersInv_processQuery_afterAgent)
  have ti2: "timersInv s2" unfolding s2_def using ti1 by (rule timersInv_run)
  have c: "t_callback t = TimerUpCallback (labelTextOf p) (p_timerId p)" and hh: "t_handle t = h"
    by (simp_all add: t_def)
  have fires: "shown (fire env now h s2) =
                 shown s2 @ [(wrapText env (''Timer'' @ labelTextOf p @ '' is up!'') 30, 8000)] \<and>
               map_of (activeTimers (fire env now h s2)) (p_timerId p) = None \<and>
               filter (\<lambda>u. t_handle u = h) (timers (fire env now h s2)) = []"
    if "t \<in> set (timers s2)" for now
  proof -
    have d: "distinct (map t_handle (timers s2))" using ti2 by (simp add: timersInv_def)
    note f = fire_timer_up[OF d that c, of env now, unfolded hh]
    show ?thesis unfolding f by (simp add: map_of_delete_same filter_empty_conv)
  qed
  have empty: "activeTimers (cleanup s2) = []" by (simp add: cleanup_def Let_def)
  have cancelled: "\<not> idPending (p_timerId p) (cleanup s2) \<and> t \<notin> set (timers (cleanup s2))"
    if fresh: "\<not> idPending (p_timerId p) s" and later: "idFresh env (p_timerId p) evs' s1"
  proof -
    have "registryInv (p_timerId p) s1"
      unfolding registryInv_def s1_def ps using fresh
      by (auto simp: idPending_def list_ex_iff update_conv')
    then have "registryInv (p_timerId p) s2"
      unfolding s2_def using later by (rule registryInv_run)
    then have n: "\<not> idPending (p_timerId p) (cleanup s2)" by (rule idPending_cleanup)
    with c show ?thesis by (auto simp: idPending_def list_ex_iff)
  qed
  from reg one delay fires empty cancelled show ?thesis
    unfolding Let_def s_def[symmetric] h_def[symmetric] s1_def[symmetric] t_def[symmetric]
      s2_def[symmetric]
    by blast
qed

theorem side_effect_timer_C9_witness:
  "''A'' \<noteq> [] \<and>
   parseJSON (standIn sampleParse) ''A'' =
     Some \<lparr> p_event = Some ''timer_set'', p_duration = Some 60, p_label = None,
            p_timerId = Some ''t1'' \<rparr> \<and>
   map_of (activeTimers (run (standIn sampleParse)
     [Transcription 1000 \<lparr> frag_text = ''hey mira hi'', frag_isFinal = False \<rparr>,
      TimerFires 4000 0,
      FetchSettles (FetchBody (Segments [Segment (Some ''hey mira hi'')])),
      AgentSettles (AgentReturned (Some ''A''))] (initial []))) (Some ''t1'') = Some 1 \<and>
   filter (\<lambda>u. t_handle u = 1) (timers (run (standIn sampleParse)
     [Transcription 1000 \<lparr> frag_text = ''hey mira hi'', frag_isFinal = False \<rparr>,
      TimerFires 4000 0,
      FetchSettles (FetchBody (Segments [Segment (Some ''hey mira hi'')])),
      AgentSettles (AgentReturned (Some ''A''))] (initial []))) =
     [\<lparr> t_handle = 1, t_delay = 60000, t_callback = TimerUpCallback [] (Some ''t1'') \<rparr>] \<and>
   (1::int) \<le> 60 \<and> (60::int) \<le> 2147483 \<and>
   \<lparr> t_handle = 1, t_delay = 60000, t_callback = TimerUpCallback [] (Some ''t1'') \<rparr>
     \<in> set (timers (run (standIn sampleParse)
     [Transcription 1000 \<lparr> frag_text = ''hey mira hi'', frag_isFinal = False \<rparr>,
      TimerFires 4000 0,
      FetchSettles (FetchBody (Segments [Segment (Some ''hey mira hi'')])),
      AgentSettles (AgentReturned (Some ''A'')),
      TimerFires 6500 2] (initial []))) \<and>
   shown (fire (standIn sampleParse) 64500 1 (run (standIn sampleParse)
     [Transcription 1000 \<lparr> frag_text = ''hey mira hi'', frag_isFinal = False \<rparr>,
      TimerFires 4000 0,
      FetchSettles (FetchBody (Segments [Segment (Some ''hey mira hi'')])),
      AgentSettles (AgentReturned (Some ''A'')),
      TimerFires 6500 2] (initial []))) =
     [(''Listening...'' @ [CHR 0x0A, CHR 0x0A] @ ''hi'', 10000),
      (''Processing query: hi'', 8000),
      (''Timer set for 60 seconds.'', 5000),
      (''Timer is up!'', 8000)] \<and>
   \<not> idPending (Some ''t1'') (run (standIn sampleParse)
     [Transcription 1000 \<lparr> frag_text = ''hey mira hi'', frag_isFinal = False \<rparr>,
      TimerFires 4000 0,
      FetchSettles (FetchBody (Segments [Segment (Some ''hey mira hi'')]))] (initial [])) \<and>
   idFresh (standIn sampleParse) (Some ''t1'') [TimerFires 6500 2] (run (standIn sampleParse)
     [Transcription 1000 \<lparr> frag_text = ''hey mira hi'', frag_isFinal = False \<rparr>,
      TimerFires 4000 0,
      FetchSettles (FetchBody (Segments [Segment (Some ''hey mira hi'')])),
      AgentSettles (AgentReturned (Some ''A''))] (initial [])) \<and>
   \<not> idPending (Some ''t1'') (cleanup (run (standIn sampleParse)
     [Transcription 1000 \<lparr> frag_text = ''hey mira hi'', frag_isFinal = False \<rparr>,
      TimerFires 4000 0,
      FetchSettles (FetchBody (Segments [Segment (Some ''hey mira hi'')])),
      AgentSettles (AgentReturned (Some ''A'')),
      TimerFires 6500 2] (initial []))) \<and>
   activeTimers (cleanup (run (standIn sampleParse)
     [Transcription 1000 \<lparr> frag_text = ''hey mira hi'', frag_isFinal = False \<rparr>,
      TimerFires 4000 0,
      FetchSettles (FetchBody (Segments [Segment (Some ''hey mira hi'')])),
      AgentSettles (AgentReturned (Some ''A'')),
      TimerFires 6500 2] (initial []))) = []"
  using side_effect_timer_C9
    [of "''A''" "standIn sampleParse"
        "\<lparr> p_event = Some ''timer_set'', p_duration = Some 60, p_label = None,
           p_timerId = Some ''t1'' \<rparr>"
        60
        "[Transcription 1000 \<lparr> frag_text = ''hey mira hi'', frag_isFinal = False \<rparr>,
          TimerFires 4000 0,
          FetchSettles (FetchBody (Segments [Segment (Some ''hey mira hi'')]))]"
        "[]" "[TimerFires 6500 2]" ]
  by (simp add: session_defs sample_texts sample_timers reusesId_def isTimerSet_def
        idPending_def update_conv')

text \<open>
  C9 as stated fails in two ways. When the agent reuses a \<open>timerId\<close>, the first timer's
  callback deletes the entry that by then belongs to the second timer, \<open>cleanup\<close> finds the
  registry empty, and the second timer (handle 4) is still pending after the session has
  stopped. And a duration of 2147484 seconds is beyond what the platform's timers hold:
  the timer that is registered is due after 1 ms.
\<close>

theorem reused_id_survives_cleanup_C9_counterexample:
  "run (standIn sampleParse)
     [Transcription 1000 \<lparr> frag_text = ''hey mira hi'', frag_isFinal = False \<rparr>,
      TimerFires 4000 0,
      FetchSettles (FetchBody (Segments [Segment (Some ''hey mira hi'')])),
      AgentSettles (AgentReturned (Some ''A'')),
      TimerFires 6500 2,
      Transcription 7000 \<lparr> frag_text = ''hey mira hi'', frag_isFinal = False \<rparr>,
      TimerFires 10000 3,
      FetchSettles (FetchBody (Segments [Segment (Some ''hey mira hi'')])),
      AgentSettles (AgentReturned (Some ''B'')),
      TimerFires 12500 5,
      TimerFires 64500 1,
      SessionStops]
     (initial [])
   = \<lparr> isProcessingQuery = False, isListeningToQuery = False, timeoutId = None,
       transcriptionStartTime = 0, activeTimers = [], transcriptProcessor = [],
       timers = [\<lparr> t_handle = 4, t_delay = 600000,
                   t_callback = TimerUpCallback [] (Some ''t1'') \<rparr>],
       nextHandle = 6,
       shown = [(''Listening...'' @ [CHR 0x0A, CHR 0x0A] @ ''hi'', 10000),
                (''Processing query: hi'', 8000),
                (''Timer set for 60 seconds.'', 5000),
                (''Listening...'' @ [CHR 0x0A, CHR 0x0A] @ ''hi'', 10000),
                (''Processing query: hi'', 8000),
                (''Timer set for 600 seconds.'', 5000),
                (''Timer is up!'', 8000)],
       fetched = [3, 3], agentQueries = [''hi'', ''hi''], awaitingFetch = 0, awaitingAgent = 0 \<rparr> \<and>
   filter (\<lambda>u. t_handle u = 1) (timers (run (standIn sampleParse)
     [Transcription 1000 \<lparr> frag_text = ''hey mira hi'', frag_isFinal = False \<rparr>,
      TimerFires 4000 0,
      FetchSettles (FetchBody (Segments [Segment (Some ''hey mira hi'')])),
      AgentSettles (AgentReturned (Some ''C''))] (initial []))) =
     [\<lparr> t_handle = 1, t_delay = 1, t_callback = TimerUpCallback [] (Some ''t2'') \<rparr>]"
  by (simp add: session_defs sample_texts sample_timers)

text \<open>
  C6 (as the code has it). When no variant occurs anywhere in the text, \<open>removeWakeWord\<close>
  returns the text trimmed. Otherwise let the text be \<open>p @ v @ rest\<close>, where \<open>p\<close> holds no
  line terminator, no variant occurs at a position inside \<open>p\<close>, and \<open>v\<close> is an instance of the
  first variant of the list that occurs where \<open>v\<close> starts: the result is \<open>rest\<close> without the
  white space, commas and periods it starts with, trimmed.
\<close>

theorem removeWakeWord_C6:
  "(\<not> (\<exists>q. suffix q s \<and> occursAtHead q) \<longrightarrow> removeWakeWord s = trim s) \<and>
   (\<forall>p v rest i.
      s = p @ v @ rest \<and> \<not> list_ex isLineTerminator p \<and>
      \<not> (\<exists>p1 p2. p = p1 @ p2 \<and> p2 \<noteq> [] \<and> occursAtHead (p2 @ v @ rest)) \<and>
      i < length wakePatterns \<and> variantInstance (wakePatterns ! i) v \<and>
      \<not> (\<exists>j<i. \<exists>v'. prefix v' (v @ rest) \<and> variantInstance (wakePatterns ! j) v')
      \<longrightarrow> removeWakeWord s = trim (dropWhile isSeparator rest))"
proof (intro conjI allI impI)
  assume "\<not> (\<exists>q. suffix q s \<and> occursAtHead q)"
  then have "\<forall>q. suffix q s \<longrightarrow> firstMatch wakePatterns q = None"
    by (auto simp: occursAtHead_iff)
  then have "wakeRegexExec s = None" by (rule wakeRegexExec_none)
  then show "removeWakeWord s = trim s" by (simp add: removeWakeWord_def)
next
  fix p v rest i
  assume h: "s = p @ v @ rest \<and> \<not> list_ex isLineTerminator p \<and>
      \<not> (\<exists>p1 p2. p = p1 @ p2 \<and> p2 \<noteq> [] \<and> occursAtHead (p2 @ v @ rest)) \<and>
      i < length wakePatterns \<and> variantInstance (wakePatterns ! i) v \<and>
      \<not> (\<exists>j<i. \<exists>v'. prefix v' (v @ rest) \<and> variantInstance (wakePatterns ! j) v')"
  then have n: "noMatchIn p (v @ rest)" by (simp add: noMatchIn_iff)
  from h have l: "\<not> list_ex isLineTerminator p" by simp
  from h have i: "i < length wakePatterns" and gi: "goodPattern (wakePatterns ! i)"
    by (simp_all add: good_wake_pattern)
  from h have "matchPattern (wakePatterns ! i) (v @ rest) = Some rest"
    using matchPattern_iff[OF gi, of "v @ rest" rest] by auto
  moreover have "\<forall>j<i. matchPattern (wakePatterns ! j) (v @ rest) = None"
  proof (intro allI impI)
    fix j assume j: "j < i"
    with i have "goodPattern (wakePatterns ! j)" by (simp add: good_wake_pattern)
    with h j show "matchPattern (wakePatterns ! j) (v @ rest) = None"
      by (auto simp: matchPattern_None_iff)
  qed
  ultimately have "firstMatch wakePatterns (v @ rest) = Some rest"
    using i by (intro firstMatch_nth)
  with n l have "wakeRegexExec (p @ v @ rest) = Some ([], dropWhile isSeparator rest)"
    by (rule wakeRegexExec_split)
  with h show "removeWakeWord s = trim (dropWhile isSeparator rest)"
    by (simp add: removeWakeWord_def)
qed

theorem removeWakeWord_C6_witness:
  "\<not> (\<exists>q. suffix q '' hi'' \<and> occursAtHead q) \<and>
   removeWakeWord '' hi'' = trim '' hi'' \<and>
   variantInstance (wakePatterns ! 0) ''hey mira'' \<and>
   removeWakeWord ''hey mira hi'' = trim (dropWhile isSeparator '' hi'')"
proof -
  have a: "variantInstance (wakePatterns ! 0) ''hey mira''"
    by (simp only: first_wake_pattern hey_mira_instance)
  have b: "''hey mira hi'' = [] @ ''hey mira'' @ '' hi'' \<and> \<not> list_ex isLineTerminator [] \<and>
      \<not> (\<exists>p1 p2. [] = p1 @ p2 \<and> p2 \<noteq> [] \<and> occursAtHead (p2 @ ''hey mira'' @ '' hi'')) \<and>
      0 < length wakePatterns \<and> variantInstance (wakePatterns ! 0) ''hey mira'' \<and>
      \<not> (\<exists>j<0. \<exists>v'. prefix v' (''hey mira'' @ '' hi'') \<and> variantInstance (wakePatterns ! j) v')"
    using a by (simp add: wakePatterns_def explicitWakeWords_def)
  note t1 = removeWakeWord_C6[of "'' hi''", THEN conjunct1, THEN mp, OF no_variant_in_hi]
  note t2 = removeWakeWord_C6[of "''hey mira hi''", THEN conjunct2, THEN spec, THEN spec, THEN spec,
      THEN spec, THEN mp, OF b]
  from no_variant_in_hi t1 a t2 show ?thesis by (intro conjI)
qed

text \<open>
  C6 as stated fails in two ways: a text without a variant comes back trimmed, not
  unchanged; and the commas, periods and white space after the variant are deleted with it.
\<close>

theorem removeWakeWord_C6_counterexample:
  "\<not> (\<exists>q. suffix q '' hi'' \<and> occursAtHead q) \<and>
   removeWakeWord '' hi'' \<noteq> '' hi'' \<and>
   removeWakeWord ''hey mira, hi'' = ''hi''"
proof -
  have "\<forall>q. suffix q '' hi'' \<longrightarrow> firstMatch wakePatterns q = None"
    using no_variant_in_hi by (simp add: occursAtHead_iff)
  then have "wakeRegexExec '' hi'' = None" by (rule wakeRegexExec_none)
  then have "removeWakeWord '' hi'' = trim '' hi''" by (simp add: removeWakeWord_def)
  also have "trim '' hi'' = ''hi''" by (simp add: trim_def isWhiteSpace_def)
  finally have a: "removeWakeWord '' hi'' \<noteq> '' hi''" by simp
  have b: "removeWakeWord ''hey mira, hi'' = ''hi''" by (simp add: wake_eval)
  from no_variant_in_hi a b show ?thesis by (intro conjI)
qed

section \<open>A further property\<close>

text \<open>
  A run of \<open>processQuery\<close> that has reached the agent ends, whatever the agent's outcome
  (an answer, a timer event, no answer, an exception), with the session reset:
  \<open>transcriptionStartTime\<close> is 0, \<open>timeoutId\<close> is unset and no debounce timer is pending,
  the session is not listening, the formatter is cleared, and the timer scheduled last is
  the cool-down of 2000 ms, whose firing clears \<open>isProcessingQuery\<close>.
\<close>

theorem processQuery_resets_after_agent:
  "transcriptionStartTime (processQuery_afterAgent env outcome (run env evs (initial tp))) = 0 \<and>
   timeoutId (processQuery_afterAgent env outcome (run env evs (initial tp))) = None \<and>
   \<not> isListeningToQuery (processQuery_afterAgent env outcome (run env evs (initial tp))) \<and>
   transcriptProcessor (processQuery_afterAgent env outcome (run env evs (initial tp))) =
     clear env (transcriptProcessor (run env evs (initial tp))) \<and>
   isProcessingQuery (processQuery_afterAgent env outcome (run env evs (initial tp))) =
     isProcessingQuery (run env evs (initial tp)) \<and>
   debounceTimers (processQuery_afterAgent env outcome (run env evs (initial tp))) = [] \<and>
   t_delay (last (timers (processQuery_afterAgent env outcome (run env evs (initial tp))))) = 2000 \<and>
   t_callback (last (timers (processQuery_afterAgent env outcome (run env evs (initial tp))))) =
     CooldownCallback \<and>
   \<not> isProcessingQuery
       (fire env now
          (t_handle (last (timers (processQuery_afterAgent env outcome (run env evs (initial tp))))))
          (processQuery_afterAgent env outcome (run env evs (initial tp))))"
proof -
  define s where "s = run env evs (initial tp)"
  define s' where "s' = processQuery_afterAgent env outcome s"
  have ti: "timersInv s" unfolding s_def by (rule timersInv_run) (rule timersInv_initial)
  then have ti': "timersInv s'" unfolding s'_def by (rule timersInv_processQuery_afterAgent)
  obtain s1 where s1: "s' = finallyReset env s1" "transcriptProcessor s1 = transcriptProcessor s"
      "isProcessingQuery s1 = isProcessingQuery s"
    unfolding s'_def using processQuery_afterAgent_finally by blast
  have a: "transcriptionStartTime s' = 0" "timeoutId s' = None" "\<not> isListeningToQuery s'"
      "transcriptProcessor s' = clear env (transcriptProcessor s)"
      "isProcessingQuery s' = isProcessingQuery s"
    unfolding s1(1) by (simp_all add: finallyReset_fields s1(2,3))
  have l: "last (timers s') = \<lparr> t_handle = nextHandle s1, t_delay = 2000, t_callback = CooldownCallback \<rparr>"
    unfolding s1(1) by (rule finallyReset_fields)
  have ne: "timers s' \<noteq> []"
    unfolding s1(1) by (simp add: finallyReset_def Let_def setTimeout_def split: option.splits)
  have db: "debounceTimers s' = []" using ti' a(2) by (rule debounceTimers_unset)
  have f: "\<not> isProcessingQuery (fire env now (t_handle (last (timers s'))) s')"
    using ti' ne by (rule fire_cooldown) (simp add: l)
  from a db l f show ?thesis
    unfolding s'_def[symmetric] s_def[symmetric] by simp
qed

end
